theory Spec2Isabelle
  imports Main "HOL-Library.Word"
begin

section \<open>The event handler of the indexing server (base_event_handler.cpp)\<close>

text \<open>
  The class \<open>base_event_handler\<close> owns a buffer of pending records, a queue of
  addition jobs, a stop flag, a worker thread, an index manager and a mount manager.
  Its member functions are embedded as functions on a record of these members.
  The members are written without the trailing underscore of the source
  (\<open>records_\<close> is \<open>records\<close>, \<open>mtx_\<close> is the mutex of the events
  \<open>Lock\<close> and \<open>Unlock\<close>), since a name of HOL cannot end with one.
\<close>

subsection \<open>Collaborators\<close>

text \<open>
  The index manager (member \<open>index_manager_\<close>), the mount manager (member
  \<open>mnt_manager_\<close>) and \<open>file_helper::generate_file_record\<close> are declared in
  headers that this source file includes; their code is elsewhere. They are parameters of
  the model: \<open>'s\<close> is the state of the index manager, \<open>'m\<close> the state of
  the mount manager, \<open>'r\<close> the type \<open>file_record\<close>. A call that returns a
  value and is used as a query by the handler (\<open>deletion_jobs_ready\<close>,
  \<open>document_exists\<close>, \<open>search\<close>, \<open>index_directory\<close>,
  \<open>contains_device\<close>, \<open>get_mount_point\<close>, \<open>path_match_type\<close>)
  reads the collaborator's state; a call that returns nothing gives its new state.
  \<open>offset\<close>, \<open>max_count\<close> (\<open>int\<close>) and \<open>device_id\<close>
  (\<open>unsigned int\<close>) are 32-bit words.
\<close>

record ('r, 's, 'm) collaborators =
  im_add_index :: "'r \<Rightarrow> 's \<Rightarrow> 's"
  im_add_index_delay :: "'r \<Rightarrow> 's \<Rightarrow> 's"
  im_remove_index :: "string \<Rightarrow> 's \<Rightarrow> 's"
  im_remove_index_delay :: "string \<Rightarrow> 's \<Rightarrow> 's"
  im_deletion_jobs_ready :: "'s \<Rightarrow> bool"
  im_process_deletion_jobs :: "'s \<Rightarrow> 's"
  im_document_exists :: "string \<Rightarrow> 's \<Rightarrow> bool"
  im_search :: "string \<Rightarrow> string \<Rightarrow> 32 word \<Rightarrow> 32 word \<Rightarrow> bool \<Rightarrow> 's \<Rightarrow> string list"
  im_set_index_change_filter :: "(string \<Rightarrow> bool) \<Rightarrow> 's \<Rightarrow> 's"
  im_index_directory :: "'s \<Rightarrow> string"
  mm_update :: "'m \<Rightarrow> 'm"
  mm_contains_device :: "32 word \<Rightarrow> 'm \<Rightarrow> bool"
  mm_get_mount_point :: "32 word \<Rightarrow> 'm \<Rightarrow> string"
  mm_path_match_type :: "string \<Rightarrow> string \<Rightarrow> 'm \<Rightarrow> bool"
  generate_file_record :: "string \<Rightarrow> 'r option"

subsection \<open>What a member function does, as a trace\<close>

text \<open>
  Every member function appends to \<open>trace\<close> what it does to the world outside
  its own locals, in the order of the source: taking and releasing \<open>mtx_\<close>,
  \<open>cv_.notify_one()\<close>, each expression that reads or writes \<open>records_\<close>,
  \<open>addition_jobs_\<close> or \<open>should_stop_\<close>, and each call of a collaborator
  with its arguments.
\<close>

datatype member = Records | AdditionJobs | ShouldStop

datatype 'r store_call =
    Im_add_index 'r
  | Im_add_index_delay 'r
  | Im_remove_index string
  | Im_remove_index_delay string
  | Im_deletion_jobs_ready
  | Im_process_deletion_jobs
  | Im_document_exists string
  | Im_search string string "32 word" "32 word" bool
  | Im_set_index_change_filter "string \<Rightarrow> bool"
  | Im_index_directory

datatype mount_call =
    Mm_update
  | Mm_contains_device "32 word"
  | Mm_get_mount_point "32 word"
  | Mm_path_match_type string string

datatype 'r event =
    Lock
  | Unlock
  | NotifyOne
  | Access member
  | Store "'r store_call"
  | Mount mount_call

subsection \<open>The members\<close>

text \<open>
  \<open>records_\<close> is a \<open>std::deque\<close> and \<open>addition_jobs_\<close> a
  \<open>std::queue\<close>: lists with the front at the head. Sizes and the loop counters are
  \<open>size_t\<close>; they count elements held in memory and the loops stop below a size,
  so no arithmetic on them wraps and they are natural numbers. A reading of the steady
  clock and \<open>last_addition_time_\<close> are time points, held as a signed 64-bit
  count of clock ticks; their difference is a signed 64-bit count too, and where the
  mathematical difference does not fit it wraps around modulo \<open>2^64\<close>, as the
  compiled subtraction does. \<open>batch_interval_\<close> is declared in the header, which
  is not in this source file: it is the signed 64-bit count of ticks that the comparison
  sees. The worker thread is where its loop stands (\<open>worker_at\<close>) and whether
  the \<open>std::thread\<close> is still joinable.
\<close>

datatype worker_state = Waiting | Draining | Stopped

record ('r, 's, 'm) base_event_handler =
  records :: "'r list"
  addition_jobs :: "'r list"
  should_stop :: bool
  batch_size :: nat
  batch_interval :: "64 word"
  last_addition_time :: "64 word"
  index_manager :: 's
  mnt_manager :: 'm
  worker_at :: worker_state
  worker_joinable :: bool
  trace :: "'r event list"

definition emit :: "'r event \<Rightarrow> ('r, 's, 'm) base_event_handler \<Rightarrow> ('r, 's, 'm) base_event_handler" where
  "emit e s = s\<lparr>trace := trace s @ [e]\<rparr>"

subsection \<open>run_scheduled_task\<close>

text \<open>
  The loop of \<open>run_scheduled_task\<close>, from counter \<open>i\<close>: under the lock the
  front record goes to the index manager's \<open>add_index_delay\<close>; the lock is
  released; the front is popped. \<open>front()\<close> of an empty deque is undefined
  behaviour: the result \<open>None\<close>.
\<close>

function scheduled_loop ::
  "('r, 's, 'm) collaborators \<Rightarrow> nat \<Rightarrow> nat \<Rightarrow> ('r, 's, 'm) base_event_handler
   \<Rightarrow> ('r, 's, 'm) base_event_handler option" where
  "scheduled_loop C i n s =
     (if i < n then
        (case records s of
           [] \<Rightarrow> None
         | r # rest \<Rightarrow>
             scheduled_loop C (Suc i) n
               ((emit (Access Records) (emit Unlock
                  ((emit (Store (Im_add_index_delay r)) (emit (Access Records) (emit Lock s)))
                     \<lparr>index_manager := im_add_index_delay C r (index_manager s)\<rparr>)))
                  \<lparr>records := rest\<rparr>))
      else Some s)"
  by pat_completeness auto
termination
  by (relation "measure (\<lambda>(C, i, n, s). n - i)") auto

declare scheduled_loop.simps [simp del]

definition run_scheduled_task ::
  "('r, 's, 'm) collaborators \<Rightarrow> ('r, 's, 'm) base_event_handler
   \<Rightarrow> ('r, 's, 'm) base_event_handler option" where
  "run_scheduled_task C s =
     (let s0 = emit (Access Records) s in
      if records s0 \<noteq> [] then
        (let s1 = emit (Access Records) s0;
             n = min 500 (length (records s1))
         in map_option (emit NotifyOne) (scheduled_loop C 0 n s1))
      else Some (emit NotifyOne s0))"

subsection \<open>ignored_event\<close>

text \<open>
  Modelled from the spec: \<open>anything::ends_with\<close> is declared in
  \<open>utils/string_helper.h\<close>, whose code is not in this source file. The spec says
  the path "ends with the reserved suffix": the suffix is the tail of the path.
\<close>

definition ends_with :: "string \<Rightarrow> string \<Rightarrow> bool" where
  "ends_with s suffix =
     (length suffix \<le> length s \<and> drop (length s - length suffix) s = suffix)"

definition ignored_event ::
  "('r, 's, 'm) collaborators \<Rightarrow> string \<Rightarrow> bool \<Rightarrow> ('r, 's, 'm) base_event_handler
   \<Rightarrow> bool \<times> ('r, 's, 'm) base_event_handler" where
  "ignored_event C path ignored s =
     (if ends_with path ''.longname'' then (True, s)
      else if \<not> ignored then
        (let s1 = emit (Mount (Mm_path_match_type path ''fuse.dlnfs'')) s in
         if mm_path_match_type C path ''fuse.dlnfs'' (mnt_manager s1) then (True, s1)
         else (False, s1))
      else (False, s))"

subsection \<open>The pending buffer, the mount manager, the index directory\<close>

definition insert_pending_records ::
  "'r list \<Rightarrow> ('r, 's, 'm) base_event_handler \<Rightarrow> ('r, 's, 'm) base_event_handler" where
  "insert_pending_records rs s = (emit (Access Records) s)\<lparr>records := records s @ rs\<rparr>"

definition record_size ::
  "('r, 's, 'm) base_event_handler \<Rightarrow> nat \<times> ('r, 's, 'm) base_event_handler" where
  "record_size s = (length (records s), emit (Access Records) s)"

definition refresh_mount_status ::
  "('r, 's, 'm) collaborators \<Rightarrow> ('r, 's, 'm) base_event_handler
   \<Rightarrow> ('r, 's, 'm) base_event_handler" where
  "refresh_mount_status C s =
     (emit (Mount Mm_update) s)\<lparr>mnt_manager := mm_update C (mnt_manager s)\<rparr>"

definition device_available ::
  "('r, 's, 'm) collaborators \<Rightarrow> 32 word \<Rightarrow> ('r, 's, 'm) base_event_handler
   \<Rightarrow> bool \<times> ('r, 's, 'm) base_event_handler" where
  "device_available C device_id s =
     (mm_contains_device C device_id (mnt_manager s), emit (Mount (Mm_contains_device device_id)) s)"

definition fetch_mount_point_for_device ::
  "('r, 's, 'm) collaborators \<Rightarrow> 32 word \<Rightarrow> ('r, 's, 'm) base_event_handler
   \<Rightarrow> string \<times> ('r, 's, 'm) base_event_handler" where
  "fetch_mount_point_for_device C device_id s =
     (mm_get_mount_point C device_id (mnt_manager s), emit (Mount (Mm_get_mount_point device_id)) s)"

definition get_index_directory ::
  "('r, 's, 'm) collaborators \<Rightarrow> ('r, 's, 'm) base_event_handler
   \<Rightarrow> string \<times> ('r, 's, 'm) base_event_handler" where
  "get_index_directory C s =
     (im_index_directory C (index_manager s), emit (Store Im_index_directory) s)"

definition set_index_change_filter ::
  "('r, 's, 'm) collaborators \<Rightarrow> (string \<Rightarrow> bool) \<Rightarrow> ('r, 's, 'm) base_event_handler
   \<Rightarrow> ('r, 's, 'm) base_event_handler" where
  "set_index_change_filter C flt s =
     emit Unlock
       ((emit (Store (Im_set_index_change_filter flt)) (emit Lock s))
          \<lparr>index_manager := im_set_index_change_filter C flt (index_manager s)\<rparr>)"

subsection \<open>Jobs for the worker\<close>

definition add_index_delay ::
  "'r \<Rightarrow> ('r, 's, 'm) base_event_handler \<Rightarrow> ('r, 's, 'm) base_event_handler" where
  "add_index_delay record s =
     (let s1 = (emit (Access AdditionJobs) (emit Lock s))
                 \<lparr>addition_jobs := addition_jobs s @ [record]\<rparr>;
          s2 = emit (Access AdditionJobs) s1;
          s3 = (if length (addition_jobs s2) > batch_size s2 then emit NotifyOne s2 else s2)
      in emit Unlock s3)"

definition remove_index_delay ::
  "('r, 's, 'm) collaborators \<Rightarrow> string \<Rightarrow> ('r, 's, 'm) base_event_handler
   \<Rightarrow> ('r, 's, 'm) base_event_handler" where
  "remove_index_delay C term s =
     (let s1 = (emit (Store (Im_remove_index_delay term)) (emit Lock s))
                 \<lparr>index_manager := im_remove_index_delay C term (index_manager s)\<rparr>;
          s2 = emit (Store Im_deletion_jobs_ready) s1;
          s3 = (if im_deletion_jobs_ready C (index_manager s2) then emit NotifyOne s2 else s2)
      in emit Unlock s3)"

text \<open>
  The loop of \<open>eat_jobs\<close>, from counter \<open>i\<close>; the caller (the worker) holds
  the lock. \<open>front()\<close> of an empty queue is undefined behaviour: \<open>None\<close>.
\<close>

function eat_loop ::
  "('r, 's, 'm) collaborators \<Rightarrow> nat \<Rightarrow> nat \<Rightarrow> ('r, 's, 'm) base_event_handler
   \<Rightarrow> ('r, 's, 'm) base_event_handler option" where
  "eat_loop C i n s =
     (if i < n then
        (case addition_jobs s of
           [] \<Rightarrow> None
         | r # rest \<Rightarrow>
             eat_loop C (Suc i) n
               ((emit (Access AdditionJobs)
                  ((emit (Store (Im_add_index r)) (emit (Access AdditionJobs) s))
                     \<lparr>index_manager := im_add_index C r (index_manager s)\<rparr>))
                  \<lparr>addition_jobs := rest\<rparr>))
      else Some s)"
  by pat_completeness auto
termination
  by (relation "measure (\<lambda>(C, i, n, s). n - i)") auto

declare eat_loop.simps [simp del]

text \<open>
  \<open>eat_jobs\<close> reads the steady clock twice: \<open>now\<close> in its condition (read
  only when the queue does not exceed the batch size, as \<open>||\<close> evaluates) and
  \<open>now'\<close> for the new \<open>last_addition_time_\<close>. The elapsed time
  \<open>now - last_addition_time_\<close> is the 64-bit difference, read as a signed count
  and compared with the signed count of \<open>batch_interval_\<close>.
\<close>

definition eat_jobs ::
  "('r, 's, 'm) collaborators \<Rightarrow> 64 word \<Rightarrow> 64 word \<Rightarrow> ('r, 's, 'm) base_event_handler
   \<Rightarrow> ('r, 's, 'm) base_event_handler option" where
  "eat_jobs C now now' s =
     (let s0 = emit (Access AdditionJobs) s;
          flushed =
            (if length (addition_jobs s0) > batch_size s0
                \<or> sint (now - last_addition_time s0) \<ge> sint (batch_interval s0) then
               (let s1 = emit (Access AdditionJobs) s0;
                    n = min (batch_size s1) (length (addition_jobs s1))
                in map_option (\<lambda>s2. s2\<lparr>last_addition_time := now'\<rparr>) (eat_loop C 0 n s1))
             else Some s0)
      in case flushed of
           None \<Rightarrow> None
         | Some s3 \<Rightarrow>
             (let s4 = emit (Store Im_deletion_jobs_ready) s3 in
              if im_deletion_jobs_ready C (index_manager s4) then
                Some ((emit (Store Im_process_deletion_jobs) s4)
                        \<lparr>index_manager := im_process_deletion_jobs C (index_manager s4)\<rparr>)
              else Some s4))"

subsection \<open>The worker thread\<close>

text \<open>
  The predicate that \<open>worker_loop\<close> gives to \<open>cv_.wait_for\<close>, evaluated
  from left to right as \<open>||\<close> does.
\<close>

definition wake_condition ::
  "('r, 's, 'm) collaborators \<Rightarrow> ('r, 's, 'm) base_event_handler
   \<Rightarrow> bool \<times> ('r, 's, 'm) base_event_handler" where
  "wake_condition C s =
     (let s1 = emit (Access AdditionJobs) s in
      if length (addition_jobs s1) > batch_size s1 then (True, s1)
      else
        (let s2 = emit (Store Im_deletion_jobs_ready) s1 in
         if im_deletion_jobs_ready C (index_manager s2) then (True, s2)
         else (let s3 = emit (Access ShouldStop) s2 in (should_stop s3, s3))))"

text \<open>
  One step of the thread that runs \<open>worker_loop\<close>. At \<open>Waiting\<close> the thread
  takes the lock and waits; \<open>wait_for\<close> returns with the lock held and its result
  is the value of the predicate at that moment: true after a notification or a timeout
  (1000 ms) that finds the predicate true, false after a timeout that finds it false.
  What other threads did while the worker slept is in the state the step starts from.
  A true result with \<open>should_stop_\<close> set leaves the loop (\<open>break\<close>, the lock is
  released); every other result goes on to \<open>eat_jobs\<close>. At \<open>Draining\<close> the
  thread runs \<open>eat_jobs\<close> with the lock still held, releases the lock at the end of
  the loop body and waits again. At \<open>Stopped\<close> the function has returned and the
  thread does nothing more.
\<close>

definition worker_step ::
  "('r, 's, 'm) collaborators \<Rightarrow> 64 word \<Rightarrow> 64 word \<Rightarrow> ('r, 's, 'm) base_event_handler
   \<Rightarrow> ('r, 's, 'm) base_event_handler option" where
  "worker_step C now now' s =
     (case worker_at s of
        Waiting \<Rightarrow>
          (let (woken, s1) = wake_condition C (emit Lock s) in
           if woken then
             (let s2 = emit (Access ShouldStop) s1 in
              if should_stop s2 then Some ((emit Unlock s2)\<lparr>worker_at := Stopped\<rparr>)
              else Some (s2\<lparr>worker_at := Draining\<rparr>))
           else Some (s1\<lparr>worker_at := Draining\<rparr>))
      | Draining \<Rightarrow>
          map_option (\<lambda>s1. (emit Unlock s1)\<lparr>worker_at := Waiting\<rparr>) (eat_jobs C now now' s)
      | Stopped \<Rightarrow> Some s)"

text \<open>
  The thread run on its own until its function returns; step \<open>k\<close> reads the clock
  values \<open>clock (2 * k)\<close> and \<open>clock (2 * k + 1)\<close>. A loop that never ends is
  \<open>None\<close>.
\<close>

partial_function (option) worker_loop ::
  "('r, 's, 'm) collaborators \<Rightarrow> (nat \<Rightarrow> 64 word) \<Rightarrow> nat \<Rightarrow> ('r, 's, 'm) base_event_handler
   \<Rightarrow> ('r, 's, 'm) base_event_handler option" where
  "worker_loop C clock k s =
     (if worker_at s = Stopped then Some s
      else
        (case worker_step C (clock (2 * k)) (clock (2 * k + 1)) s of
           None \<Rightarrow> None
         | Some s' \<Rightarrow> worker_loop C clock (Suc k) s'))"

text \<open>
  \<open>terminate_processing\<close>: \<open>worker_.join()\<close> returns when the worker's function
  has returned, so the caller sees the state the worker's remaining steps leave; when
  the worker never leaves its loop the call never returns (\<open>None\<close>).
\<close>

definition terminate_processing ::
  "('r, 's, 'm) collaborators \<Rightarrow> (nat \<Rightarrow> 64 word) \<Rightarrow> ('r, 's, 'm) base_event_handler
   \<Rightarrow> ('r, 's, 'm) base_event_handler option" where
  "terminate_processing C clock s =
     (let s1 = emit Unlock ((emit (Access ShouldStop) (emit Lock s))\<lparr>should_stop := True\<rparr>);
          s2 = emit NotifyOne s1
      in if worker_joinable s2 then
           map_option (\<lambda>s3. s3\<lparr>worker_joinable := False\<rparr>) (worker_loop C clock 0 s2)
         else Some s2)"

subsection \<open>search, removePath, hasLFT, addPath\<close>

text \<open>
  The \<open>QString\<close> arguments are taken as the \<open>std::string\<close> that
  \<open>toStdString()\<close> gives. \<open>offset < 0\<close> compares a signed 32-bit
  \<open>int\<close>.
\<close>

definition search ::
  "('r, 's, 'm) collaborators \<Rightarrow> string \<Rightarrow> string \<Rightarrow> 32 word \<Rightarrow> 32 word
   \<Rightarrow> ('r, 's, 'm) base_event_handler \<Rightarrow> string list \<times> ('r, 's, 'm) base_event_handler" where
  "search C path keywords offset max_count s =
     (if sint offset < 0 then ([], s)
      else
        (let s1 = emit (Store (Im_search path keywords offset max_count True)) (emit Lock s)
         in (im_search C path keywords offset max_count True (index_manager s1),
             emit Unlock s1)))"

definition removePath ::
  "('r, 's, 'm) collaborators \<Rightarrow> string \<Rightarrow> ('r, 's, 'm) base_event_handler
   \<Rightarrow> bool \<times> ('r, 's, 'm) base_event_handler" where
  "removePath C path s =
     (let s1 = (emit (Store (Im_remove_index path)) (emit Lock s))
                 \<lparr>index_manager := im_remove_index C path (index_manager s)\<rparr>;
          s2 = emit (Store (Im_document_exists path)) s1
      in (\<not> im_document_exists C path (index_manager s2), emit Unlock s2))"

definition hasLFT ::
  "('r, 's, 'm) collaborators \<Rightarrow> string \<Rightarrow> ('r, 's, 'm) base_event_handler
   \<Rightarrow> bool \<times> ('r, 's, 'm) base_event_handler" where
  "hasLFT C path s =
     (let s1 = emit (Store (Im_document_exists path)) (emit Lock s)
      in (im_document_exists C path (index_manager s1), emit Unlock s1))"

definition addPath ::
  "('r, 's, 'm) collaborators \<Rightarrow> string \<Rightarrow> ('r, 's, 'm) base_event_handler
   \<Rightarrow> bool \<times> ('r, 's, 'm) base_event_handler" where
  "addPath C path s =
     (case generate_file_record C path of
        Some record \<Rightarrow>
          (let s1 = (emit (Store (Im_add_index_delay record)) (emit Lock s))
                      \<lparr>index_manager := im_add_index_delay C record (index_manager s)\<rparr>;
               s2 = emit (Store (Im_document_exists path)) s1
           in (im_document_exists C path (index_manager s2), emit Unlock s2))
      | None \<Rightarrow> (False, s))"

definition index_files_in_directory ::
  "string \<Rightarrow> ('r, 's, 'm) base_event_handler \<Rightarrow> ('r, 's, 'm) base_event_handler" where
  "index_files_in_directory directory_path s = s"

subsection \<open>The member functions as requests\<close>

text \<open>
  Every member function of the source file that a caller can invoke, and what it
  returns. \<open>worker_loop\<close> and \<open>eat_jobs\<close> belong to the worker thread.
\<close>

datatype 'r request =
    Terminate_processing
  | Run_scheduled_task
  | Ignored_event string bool
  | Insert_pending_records "'r list"
  | Record_size
  | Refresh_mount_status
  | Device_available "32 word"
  | Fetch_mount_point_for_device "32 word"
  | Get_index_directory
  | Set_index_change_filter "string \<Rightarrow> bool"
  | Add_index_delay 'r
  | Remove_index_delay string
  | Search string string "32 word" "32 word"
  | RemovePath string
  | HasLFT string
  | AddPath string
  | Index_files_in_directory string

datatype reply = Nothing | Truth bool | Number nat | Str string | Strings "string list"

fun dispatch ::
  "('r, 's, 'm) collaborators \<Rightarrow> (nat \<Rightarrow> 64 word) \<Rightarrow> 'r request \<Rightarrow> ('r, 's, 'm) base_event_handler
   \<Rightarrow> (reply \<times> ('r, 's, 'm) base_event_handler) option" where
  "dispatch C clock Terminate_processing s =
     map_option (Pair Nothing) (terminate_processing C clock s)"
| "dispatch C clock Run_scheduled_task s = map_option (Pair Nothing) (run_scheduled_task C s)"
| "dispatch C clock (Ignored_event path ignored) s =
     Some (map_prod Truth id (ignored_event C path ignored s))"
| "dispatch C clock (Insert_pending_records rs) s = Some (Nothing, insert_pending_records rs s)"
| "dispatch C clock Record_size s = Some (map_prod Number id (record_size s))"
| "dispatch C clock Refresh_mount_status s = Some (Nothing, refresh_mount_status C s)"
| "dispatch C clock (Device_available d) s = Some (map_prod Truth id (device_available C d s))"
| "dispatch C clock (Fetch_mount_point_for_device d) s =
     Some (map_prod Str id (fetch_mount_point_for_device C d s))"
| "dispatch C clock Get_index_directory s = Some (map_prod Str id (get_index_directory C s))"
| "dispatch C clock (Set_index_change_filter f) s = Some (Nothing, set_index_change_filter C f s)"
| "dispatch C clock (Add_index_delay r) s = Some (Nothing, add_index_delay r s)"
| "dispatch C clock (Remove_index_delay t) s = Some (Nothing, remove_index_delay C t s)"
| "dispatch C clock (Search path keywords offset max_count) s =
     Some (map_prod Strings id (search C path keywords offset max_count s))"
| "dispatch C clock (RemovePath path) s = Some (map_prod Truth id (removePath C path s))"
| "dispatch C clock (HasLFT path) s = Some (map_prod Truth id (hasLFT C path s))"
| "dispatch C clock (AddPath path) s = Some (map_prod Truth id (addPath C path s))"
| "dispatch C clock (Index_files_in_directory d) s = Some (Nothing, index_files_in_directory d s)"

text \<open>
  A run of the whole object: calls of member functions by callers and steps of the
  worker thread (with the two clock values the step may read), in some order, each taken
  as one step.
\<close>

datatype 'r action = Call "'r request" | Worker "64 word" "64 word"

fun is_call :: "'r action \<Rightarrow> bool" where
  "is_call (Call req) = True"
| "is_call (Worker now now') = False"

fun act ::
  "('r, 's, 'm) collaborators \<Rightarrow> (nat \<Rightarrow> 64 word) \<Rightarrow> 'r action \<Rightarrow> ('r, 's, 'm) base_event_handler
   \<Rightarrow> ('r, 's, 'm) base_event_handler option" where
  "act C clock (Call req) s = map_option snd (dispatch C clock req s)"
| "act C clock (Worker now now') s = worker_step C now now' s"

fun run ::
  "('r, 's, 'm) collaborators \<Rightarrow> (nat \<Rightarrow> 64 word) \<Rightarrow> 'r action list \<Rightarrow> ('r, 's, 'm) base_event_handler
   \<Rightarrow> ('r, 's, 'm) base_event_handler option" where
  "run C clock [] s = Some s"
| "run C clock (a # as) s =
     (case act C clock a s of None \<Rightarrow> None | Some s' \<Rightarrow> run C clock as s')"

subsection \<open>Reading a trace\<close>

text \<open>The store calls of a trace, in order.\<close>

fun store_calls :: "'r event list \<Rightarrow> 'r store_call list" where
  "store_calls [] = []"
| "store_calls (Store c # es) = c # store_calls es"
| "store_calls (e # es) = store_calls es"

text \<open>
  What the worker's drain does to the index manager: the calls of \<open>add_index\<close> and
  \<open>process_deletion_jobs\<close> of a trace. Only \<open>eat_jobs\<close> makes them.
\<close>

fun drain_calls :: "'r event list \<Rightarrow> 'r store_call list" where
  "drain_calls [] = []"
| "drain_calls (Store (Im_add_index r) # es) = Im_add_index r # drain_calls es"
| "drain_calls (Store Im_process_deletion_jobs # es) = Im_process_deletion_jobs # drain_calls es"
| "drain_calls (e # es) = drain_calls es"

text \<open>The fuzzy flag of every \<open>search\<close> call of a trace.\<close>

fun search_flags :: "'r event list \<Rightarrow> bool list" where
  "search_flags [] = []"
| "search_flags (Store (Im_search path keywords offset max_count fuzzy) # es) =
     fuzzy # search_flags es"
| "search_flags (e # es) = search_flags es"

text \<open>
  The accesses to shared members and the collaborator calls of a trace that happen
  while \<open>mtx_\<close> is not held; \<open>held\<close> says whether it is held at the start.
\<close>

fun unguarded :: "bool \<Rightarrow> 'r event list \<Rightarrow> 'r event list" where
  "unguarded held [] = []"
| "unguarded held (Lock # es) = unguarded True es"
| "unguarded held (Unlock # es) = unguarded False es"
| "unguarded held (NotifyOne # es) = unguarded held es"
| "unguarded held (e # es) = (if held then unguarded held es else e # unguarded held es)"

text \<open>Whether \<open>mtx_\<close> is held after the events of a trace.\<close>

fun holds :: "bool \<Rightarrow> 'r event list \<Rightarrow> bool" where
  "holds held [] = held"
| "holds held (Lock # es) = holds True es"
| "holds held (Unlock # es) = holds False es"
| "holds held (e # es) = holds held es"

text \<open>The events a step appends to the trace.\<close>

definition appended ::
  "('r, 's, 'm) base_event_handler \<Rightarrow> ('r, 's, 'm) base_event_handler \<Rightarrow> 'r event list" where
  "appended s s' = drop (length (trace s)) (trace s')"

text \<open>What one round of the loop appends to the trace for the record it forwards.\<close>

definition forwarded :: "'r \<Rightarrow> 'r event list" where
  "forwarded r = [Lock, Access Records, Store (Im_add_index_delay r), Unlock, Access Records]"

text \<open>What one round of the loop of \<open>eat_jobs\<close> appends to the trace.\<close>

definition eaten :: "'r \<Rightarrow> 'r event list" where
  "eaten r = [Access AdditionJobs, Store (Im_add_index r), Access AdditionJobs]"

text \<open>
  Whether \<open>eat_jobs\<close> flushes at clock value \<open>now\<close>, and how many jobs it
  then takes: the condition of its \<open>if\<close> and its local \<open>batch_size\<close>.
\<close>

definition flush_due :: "64 word \<Rightarrow> ('r, 's, 'm) base_event_handler \<Rightarrow> bool" where
  "flush_due now s =
     (length (addition_jobs s) > batch_size s
        \<or> sint (now - last_addition_time s) \<ge> sint (batch_interval s))"

definition flush_count :: "64 word \<Rightarrow> ('r, 's, 'm) base_event_handler \<Rightarrow> nat" where
  "flush_count now s =
     (if flush_due now s then min (batch_size s) (length (addition_jobs s)) else 0)"

text \<open>
  The value of the predicate of \<open>wait_for\<close> in a state, and what its evaluation
  appends to the trace.
\<close>

definition woken :: "('r, 's, 'm) collaborators \<Rightarrow> ('r, 's, 'm) base_event_handler \<Rightarrow> bool" where
  "woken C s =
     (length (addition_jobs s) > batch_size s \<or> im_deletion_jobs_ready C (index_manager s)
        \<or> should_stop s)"

definition wake_trace ::
  "('r, 's, 'm) collaborators \<Rightarrow> ('r, 's, 'm) base_event_handler \<Rightarrow> 'r event list" where
  "wake_trace C s =
     Access AdditionJobs #
     (if length (addition_jobs s) > batch_size s then []
      else Store Im_deletion_jobs_ready #
        (if im_deletion_jobs_ready C (index_manager s) then [] else [Access ShouldStop]))"

text \<open>The index manager after the immediate adds of a flush at \<open>now\<close>.\<close>

definition flushed_store ::
  "('r, 's, 'm) collaborators \<Rightarrow> 64 word \<Rightarrow> ('r, 's, 'm) base_event_handler \<Rightarrow> 's" where
  "flushed_store C now s =
     fold (im_add_index C) (take (flush_count now s) (addition_jobs s)) (index_manager s)"

text \<open>
  The collaborators with another index manager's \<open>search\<close>: it answers as before
  when it is called with the fuzzy flag true, and as \<open>other\<close> says when it is
  called with the flag false.
\<close>

definition with_other_search ::
  "(string \<Rightarrow> string \<Rightarrow> 32 word \<Rightarrow> 32 word \<Rightarrow> 's \<Rightarrow> string list)
   \<Rightarrow> ('r, 's, 'm) collaborators \<Rightarrow> ('r, 's, 'm) collaborators" where
  "with_other_search other C =
     C\<lparr>im_search := \<lambda>path keywords offset max_count fuzzy.
          if fuzzy then im_search C path keywords offset max_count True
          else other path keywords offset max_count\<rparr>"

section \<open>An index store and a mount snapshot as the spec describes them\<close>

text \<open>
  The collaborators above are parameters. For a store, a mount manager and a record
  generator to run the handler on, the definitions of this section follow the spec's
  words; each says what is missing from the source file and what the spec says of it.
\<close>

text \<open>
  Modelled from the spec: the state of the index manager, whose code is not in this
  source file. The spec's store applies immediate adds and removals and queues delayed
  ones, takes a change filter and has an index directory: the indexed paths, the queued
  additions, the queued removals, the filter and the directory. A record is the path it
  was generated from.
\<close>

record index_store =
  indexed :: "string list"
  delayed_additions :: "string list"
  delayed_removals :: "string list"
  change_filter :: "string \<Rightarrow> bool"
  directory :: string

text \<open>
  Modelled from the spec: the index manager's \<open>add_index\<close>, not in this source
  file. The glossary: an immediate add is "a mutation applied to the store as part of the
  worker's current batch flush".
\<close>

definition store_add_index :: "string \<Rightarrow> index_store \<Rightarrow> index_store" where
  "store_add_index r st = st\<lparr>indexed := List.insert r (indexed st)\<rparr>"

text \<open>
  Modelled from the spec: the index manager's \<open>add_index_delay\<close>, not in this source
  file. The glossary: a delayed add is "a mutation queued for later batch application
  rather than applied immediately" (the commented-out lines of the handler's own
  \<open>add_index_delay\<close> ask the index manager \<open>addition_jobs_ready()\<close>).
\<close>

definition store_add_index_delay :: "string \<Rightarrow> index_store \<Rightarrow> index_store" where
  "store_add_index_delay r st = st\<lparr>delayed_additions := delayed_additions st @ [r]\<rparr>"

text \<open>
  Modelled from the spec: the index manager's \<open>remove_index\<close>, not in this source
  file. The spec's \<open>removeImmediate(path)\<close>, after which \<open>removePath\<close> "always
  yields \<open>hasRecord(path) == false\<close>": the path leaves the store at once, the
  indexed paths and the queued additions.
\<close>

definition store_remove_index :: "string \<Rightarrow> index_store \<Rightarrow> index_store" where
  "store_remove_index path st =
     st\<lparr>indexed := removeAll path (indexed st),
        delayed_additions := removeAll path (delayed_additions st)\<rparr>"

text \<open>
  Modelled from the spec: the index manager's \<open>remove_index_delay\<close>, not in this
  source file. The glossary: a delayed remove is queued; a deletion job is "a pending
  removal owned and scheduled internally by the Index Store".
\<close>

definition store_remove_index_delay :: "string \<Rightarrow> index_store \<Rightarrow> index_store" where
  "store_remove_index_delay t st = st\<lparr>delayed_removals := delayed_removals st @ [t]\<rparr>"

text \<open>
  Modelled from the spec: the index manager's \<open>deletion_jobs_ready\<close>, not in this
  source file. The spec leaves the store's batching policy to the store; here deletion
  jobs are ready as soon as one is queued.
\<close>

definition store_deletion_jobs_ready :: "index_store \<Rightarrow> bool" where
  "store_deletion_jobs_ready st = (delayed_removals st \<noteq> [])"

text \<open>
  Modelled from the spec: the index manager's \<open>process_deletion_jobs\<close>, not in this
  source file: the queued removals are applied and the queue is emptied.
\<close>

definition store_process_deletion_jobs :: "index_store \<Rightarrow> index_store" where
  "store_process_deletion_jobs st =
     st\<lparr>indexed := filter (\<lambda>p. p \<notin> set (delayed_removals st)) (indexed st),
        delayed_removals := []\<rparr>"

text \<open>
  Modelled from the spec: the index manager's \<open>document_exists\<close>, not in this source
  file. The spec's \<open>documentExists(path)\<close>. The spec says that \<open>addPath\<close>
  "enqueues a delayed add and returns the post-condition \<open>documentExists(path)\<close>",
  that it "returns \<open>true\<close> and \<open>hasRecord(path) == true\<close> after success",
  and that a delayed add is queued and not applied immediately: so a path exists in the
  store when it is indexed or its addition is queued.
\<close>

definition store_document_exists :: "string \<Rightarrow> index_store \<Rightarrow> bool" where
  "store_document_exists path st =
     (path \<in> set (indexed st) \<or> path \<in> set (delayed_additions st))"

text \<open>
  Modelled from the spec: the index manager's \<open>search\<close>, not in this source file.
  The spec puts the text search out of its scope and gives only the signature
  \<open>query(path, keywords, offset, maxCount, fuzzy)\<close>: here the result is the indexed
  paths that start with \<open>path\<close>, from \<open>offset\<close>, at most \<open>max_count\<close> of
  them.
\<close>

definition store_search ::
  "string \<Rightarrow> string \<Rightarrow> 32 word \<Rightarrow> 32 word \<Rightarrow> bool \<Rightarrow> index_store \<Rightarrow> string list" where
  "store_search path keywords offset max_count fuzzy st =
     take (nat (sint max_count)) (drop (nat (sint offset))
       (filter (\<lambda>p. take (length path) p = path) (indexed st)))"

text \<open>
  Modelled from the spec: the state of the mount manager, whose code is not in this
  source file. The spec calls it a snapshot of the mount table, "not auto-refreshing;
  explicit refresh replaces it atomically": the mounts of the snapshot and the mounts of
  the system's table, a mount being a device id, a mount point and a filesystem type.
\<close>

record mount_snapshot =
  mounts :: "(32 word \<times> string \<times> string) list"
  mount_table :: "(32 word \<times> string \<times> string) list"

text \<open>
  Modelled from the spec: the lookup behind the mount manager's
  \<open>path_match_type\<close>, not in this source file. The spec: "the filesystem type of
  its covering mount (longest-prefix match)".
\<close>

fun covering_mount ::
  "string \<Rightarrow> (32 word \<times> string \<times> string) list \<Rightarrow> (string \<times> string) option" where
  "covering_mount path [] = None"
| "covering_mount path ((d, point, fs) # ms) =
     (case covering_mount path ms of
        None \<Rightarrow> (if take (length point) path = point then Some (point, fs) else None)
      | Some (point', fs') \<Rightarrow>
          (if take (length point) path = point \<and> length point' < length point
           then Some (point, fs) else Some (point', fs')))"

text \<open>
  Modelled from the spec: the mount manager's \<open>path_match_type\<close>, not in this source
  file. The spec's \<open>pathMatchesType(path, fsTypeName)\<close>: the covering mount of the
  path has this filesystem type.
\<close>

definition snapshot_path_match_type :: "string \<Rightarrow> string \<Rightarrow> mount_snapshot \<Rightarrow> bool" where
  "snapshot_path_match_type path fs m =
     (case covering_mount path (mounts m) of None \<Rightarrow> False | Some (point, fs') \<Rightarrow> fs' = fs)"

text \<open>
  Modelled from the spec: the mount manager's \<open>contains_device\<close>, not in this source
  file. The spec's \<open>containsDevice(deviceId)\<close> on the device-id to mount-point map.
\<close>

definition snapshot_contains_device :: "32 word \<Rightarrow> mount_snapshot \<Rightarrow> bool" where
  "snapshot_contains_device d m = (d \<in> set (map fst (mounts m)))"

text \<open>
  Modelled from the spec: the mount manager's \<open>get_mount_point\<close>, not in this source
  file. The spec's \<open>mountPointFor(deviceId)\<close>; the empty path for a device that is
  not mounted.
\<close>

definition snapshot_get_mount_point :: "32 word \<Rightarrow> mount_snapshot \<Rightarrow> string" where
  "snapshot_get_mount_point d m =
     (case map_of (mounts m) d of None \<Rightarrow> [] | Some (point, fs) \<Rightarrow> point)"

text \<open>
  Modelled from the spec: the collaborators together, with the setter of the change
  filter, the index directory, the refresh of the snapshot and
  \<open>file_helper::generate_file_record\<close>, none of them in this source file. The spec
  says the generator derives a record from the raw path and fails when "the target
  vanished": with \<open>files\<close> the paths that exist, it gives the record of a path that
  exists and nothing otherwise.
\<close>

definition spec_collaborators ::
  "string list \<Rightarrow> (string, index_store, mount_snapshot) collaborators" where
  "spec_collaborators files =
     \<lparr>im_add_index = store_add_index,
      im_add_index_delay = store_add_index_delay,
      im_remove_index = store_remove_index,
      im_remove_index_delay = store_remove_index_delay,
      im_deletion_jobs_ready = store_deletion_jobs_ready,
      im_process_deletion_jobs = store_process_deletion_jobs,
      im_document_exists = store_document_exists,
      im_search = store_search,
      im_set_index_change_filter = (\<lambda>f st. st\<lparr>change_filter := f\<rparr>),
      im_index_directory = directory,
      mm_update = (\<lambda>m. m\<lparr>mounts := mount_table m\<rparr>),
      mm_contains_device = snapshot_contains_device,
      mm_get_mount_point = snapshot_get_mount_point,
      mm_path_match_type = snapshot_path_match_type,
      generate_file_record = (\<lambda>path. if path \<in> set files then Some path else None)\<rparr>"

text \<open>
  Modelled from the spec: the handler as the constructor leaves it. The constructor of
  the source sets \<open>batch_size_ = 100\<close> and starts the worker; the initial values of
  \<open>should_stop_\<close>, \<open>batch_interval_\<close> and \<open>last_addition_time_\<close> are in the
  header, not in this source file. The spec's shutdown flag goes from false to true, so
  it starts false; the spec gives no flush interval, so the interval and the first
  \<open>last_addition_time_\<close> are arguments. The store is empty with the index directory
  \<open>dir\<close>; the snapshot and the mount table hold the mounts \<open>ms\<close>.
\<close>

definition constructed ::
  "string \<Rightarrow> (32 word \<times> string \<times> string) list \<Rightarrow> 64 word \<Rightarrow> 64 word
   \<Rightarrow> (string, index_store, mount_snapshot) base_event_handler" where
  "constructed dir ms interval started =
     \<lparr>records = [], addition_jobs = [], should_stop = False, batch_size = 100,
      batch_interval = interval, last_addition_time = started,
      index_manager = \<lparr>indexed = [], delayed_additions = [], delayed_removals = [],
                        change_filter = (\<lambda>p. True), directory = dir\<rparr>,
      mnt_manager = \<lparr>mounts = ms, mount_table = ms\<rparr>,
      worker_at = Waiting, worker_joinable = True, trace = []\<rparr>"

section \<open>Lemmas: what the loops and the worker do\<close>

lemma scheduled_loop_closed:
  "n - i \<le> length (records s) \<Longrightarrow>
   scheduled_loop C i n s =
     Some (s\<lparr>records := drop (n - i) (records s),
             index_manager := fold (im_add_index_delay C) (take (n - i) (records s)) (index_manager s),
             trace := trace s @ concat (map forwarded (take (n - i) (records s)))\<rparr>)"
proof (induction C i n s rule: scheduled_loop.induct)
  case (1 C i n s)
  show ?case
  proof (cases "i < n")
    case False
    then show ?thesis by (simp add: scheduled_loop.simps [of C i n s])
  next
    case True
    then obtain r rest where rs: "records s = r # rest"
      using "1.prems" by (cases "records s") auto
    from True have d: "n - i = Suc (n - Suc i)" by simp
    let ?s' = "(emit (Access Records) (emit Unlock
                  ((emit (Store (Im_add_index_delay r)) (emit (Access Records) (emit Lock s)))
                     \<lparr>index_manager := im_add_index_delay C r (index_manager s)\<rparr>)))
                  \<lparr>records := rest\<rparr>"
    have len: "n - Suc i \<le> length (records ?s')"
      using "1.prems" rs d by (simp add: emit_def)
    have step: "scheduled_loop C i n s = scheduled_loop C (Suc i) n ?s'"
      using True rs by (simp add: scheduled_loop.simps [of C i n s])
    have ih: "scheduled_loop C (Suc i) n ?s' =
        Some (?s'\<lparr>records := drop (n - Suc i) (records ?s'),
             index_manager := fold (im_add_index_delay C) (take (n - Suc i) (records ?s')) (index_manager ?s'),
             trace := trace ?s' @ concat (map forwarded (take (n - Suc i) (records ?s')))\<rparr>)"
      using "1.IH" [OF True rs len] .
    show ?thesis
      unfolding step ih using rs d by (simp add: emit_def forwarded_def [of r])
  qed
qed

lemma run_scheduled_task_closed:
  "run_scheduled_task C s =
     Some (s\<lparr>records := drop (min 500 (length (records s))) (records s),
             index_manager := fold (im_add_index_delay C)
                (take (min 500 (length (records s))) (records s)) (index_manager s),
             trace := trace s @ Access Records # (if records s = [] then [] else [Access Records])
                @ concat (map forwarded (take (min 500 (length (records s))) (records s)))
                @ [NotifyOne]\<rparr>)"
proof (cases "records s = []")
  case True
  then show ?thesis by (simp add: run_scheduled_task_def emit_def)
next
  case False
  let ?s1 = "emit (Access Records) (emit (Access Records) s)"
  have "min 500 (length (records ?s1)) - 0 \<le> length (records ?s1)" by simp
  from scheduled_loop_closed [OF this, of C] False show ?thesis
    by (simp add: run_scheduled_task_def Let_def emit_def)
qed

lemma eat_loop_closed:
  "n - i \<le> length (addition_jobs s) \<Longrightarrow>
   eat_loop C i n s =
     Some (s\<lparr>addition_jobs := drop (n - i) (addition_jobs s),
             index_manager := fold (im_add_index C) (take (n - i) (addition_jobs s)) (index_manager s),
             trace := trace s @ concat (map eaten (take (n - i) (addition_jobs s)))\<rparr>)"
proof (induction C i n s rule: eat_loop.induct)
  case (1 C i n s)
  show ?case
  proof (cases "i < n")
    case False
    then show ?thesis by (simp add: eat_loop.simps [of C i n s])
  next
    case True
    then obtain r rest where rs: "addition_jobs s = r # rest"
      using "1.prems" by (cases "addition_jobs s") auto
    from True have d: "n - i = Suc (n - Suc i)" by simp
    let ?s' = "(emit (Access AdditionJobs)
                  ((emit (Store (Im_add_index r)) (emit (Access AdditionJobs) s))
                     \<lparr>index_manager := im_add_index C r (index_manager s)\<rparr>))
                  \<lparr>addition_jobs := rest\<rparr>"
    have len: "n - Suc i \<le> length (addition_jobs ?s')"
      using "1.prems" rs d by (simp add: emit_def)
    have step: "eat_loop C i n s = eat_loop C (Suc i) n ?s'"
      using True rs by (simp add: eat_loop.simps [of C i n s])
    have ih: "eat_loop C (Suc i) n ?s' =
        Some (?s'\<lparr>addition_jobs := drop (n - Suc i) (addition_jobs ?s'),
             index_manager := fold (im_add_index C) (take (n - Suc i) (addition_jobs ?s')) (index_manager ?s'),
             trace := trace ?s' @ concat (map eaten (take (n - Suc i) (addition_jobs ?s')))\<rparr>)"
      using "1.IH" [OF True rs len] .
    show ?thesis
      unfolding step ih using rs d by (simp add: emit_def eaten_def [of r])
  qed
qed

lemma eat_jobs_closed:
  "eat_jobs C now now' s =
     Some (s\<lparr>addition_jobs := drop (flush_count now s) (addition_jobs s),
             last_addition_time := (if flush_due now s then now' else last_addition_time s),
             index_manager :=
               (if im_deletion_jobs_ready C (flushed_store C now s)
                then im_process_deletion_jobs C (flushed_store C now s) else flushed_store C now s),
             trace := trace s @ Access AdditionJobs #
                (if flush_due now s
                 then Access AdditionJobs # concat (map eaten (take (flush_count now s) (addition_jobs s)))
                 else [])
                @ Store Im_deletion_jobs_ready #
                (if im_deletion_jobs_ready C (flushed_store C now s)
                 then [Store Im_process_deletion_jobs] else [])\<rparr>)"
proof (cases "flush_due now s")
  case False
  then show ?thesis
    by (simp add: eat_jobs_def flush_due_def flush_count_def flushed_store_def emit_def Let_def)
next
  case True
  let ?s1 = "emit (Access AdditionJobs) (emit (Access AdditionJobs) s)"
  have "min (batch_size ?s1) (length (addition_jobs ?s1)) - 0 \<le> length (addition_jobs ?s1)" by simp
  from eat_loop_closed [OF this, of C] True show ?thesis
    by (simp add: eat_jobs_def flush_due_def flush_count_def flushed_store_def emit_def Let_def)
qed

lemma store_calls_append: "store_calls (xs @ ys) = store_calls xs @ store_calls ys"
  by (induction xs rule: store_calls.induct) auto

lemma store_calls_forwarded:
  "store_calls (concat (map forwarded rs)) = map Im_add_index_delay rs"
  by (induction rs) (auto simp: store_calls_append forwarded_def)

lemma store_calls_eaten:
  "store_calls (concat (map eaten rs)) = map Im_add_index rs"
  by (induction rs) (auto simp: store_calls_append eaten_def)

lemma drain_calls_append: "drain_calls (xs @ ys) = drain_calls xs @ drain_calls ys"
  by (induction xs rule: drain_calls.induct) auto

lemma search_flags_append: "search_flags (xs @ ys) = search_flags xs @ search_flags ys"
  by (induction xs rule: search_flags.induct) auto

lemma unguarded_append:
  "unguarded held (xs @ ys) = unguarded held xs @ unguarded (holds held xs) ys"
  by (induction held xs rule: unguarded.induct) auto

lemma holds_append: "holds held (xs @ ys) = holds (holds held xs) ys"
  by (induction held xs rule: holds.induct) auto

lemma forwarded_reads:
  "drain_calls (concat (map forwarded rs)) = []"
  "search_flags (concat (map forwarded rs)) = []"
  "unguarded False (concat (map forwarded rs)) = replicate (length rs) (Access Records)"
  "holds False (concat (map forwarded rs)) = False"
  by (induction rs) (auto simp: forwarded_def)

lemma eaten_reads:
  "search_flags (concat (map eaten rs)) = []"
  "unguarded True (concat (map eaten rs)) = []"
  "holds True (concat (map eaten rs)) = True"
  by (induction rs) (auto simp: eaten_def)

lemma wake_trace_reads:
  "drain_calls (wake_trace C s) = []"
  "search_flags (wake_trace C s) = []"
  "unguarded True (wake_trace C s) = []"
  "holds True (wake_trace C s) = True"
  by (auto simp: wake_trace_def)

lemma wake_condition_closed:
  "wake_condition C s = (woken C s, s\<lparr>trace := trace s @ wake_trace C s\<rparr>)"
  by (simp add: wake_condition_def woken_def wake_trace_def Let_def emit_def)

lemma wake_trace_trace [simp]: "wake_trace C (s\<lparr>trace := es\<rparr>) = wake_trace C s"
  by (simp add: wake_trace_def)

lemma woken_trace [simp]: "woken C (s\<lparr>trace := es\<rparr>) = woken C s"
  by (simp add: woken_def)

lemma worker_step_waiting:
  "worker_at s = Waiting \<Longrightarrow>
   worker_step C now now' s =
     Some (s\<lparr>worker_at := (if should_stop s then Stopped else Draining),
             trace := trace s @ Lock # wake_trace C s @
               (if woken C s then Access ShouldStop # (if should_stop s then [Unlock] else [])
                else [])\<rparr>)"
  by (auto simp: worker_step_def wake_condition_closed Let_def emit_def woken_def)

lemma worker_step_draining:
  "worker_at s = Draining \<Longrightarrow>
   worker_step C now now' s =
     map_option (\<lambda>s1. s1\<lparr>trace := trace s1 @ [Unlock], worker_at := Waiting\<rparr>)
       (eat_jobs C now now' s)"
  by (simp add: worker_step_def emit_def)

lemma worker_step_stopped: "worker_at s = Stopped \<Longrightarrow> worker_step C now now' s = Some s"
  by (simp add: worker_step_def)


lemma worker_loop_stopped: "worker_at s = Stopped \<Longrightarrow> worker_loop C clock k s = Some s"
  by (subst worker_loop.simps) simp

lemma worker_loop_waiting_stop:
  "worker_at s = Waiting \<Longrightarrow> should_stop s \<Longrightarrow>
   worker_loop C clock k s =
     Some (s\<lparr>worker_at := Stopped,
             trace := trace s @ Lock # wake_trace C s @ [Access ShouldStop, Unlock]\<rparr>)"
  by (subst worker_loop.simps) (simp add: worker_step_waiting woken_def worker_loop_stopped)

lemma eat_jobs_keeps:
  "\<exists>t evs. eat_jobs C now now' s = Some t \<and> trace t = trace s @ evs \<and>
     search_flags evs = [] \<and> unguarded True evs = [] \<and> holds True evs = True \<and>
     should_stop t = should_stop s \<and> worker_at t = worker_at s \<and>
     worker_joinable t = worker_joinable s \<and> records t = records s \<and>
     mnt_manager t = mnt_manager s \<and> batch_size t = batch_size s"
  unfolding eat_jobs_closed
  by (simp add: search_flags_append eaten_reads unguarded_append holds_append)

lemma worker_loop_draining_stop:
  assumes "worker_at s = Draining" "should_stop s"
  shows "\<exists>t. eat_jobs C (clock (2 * k)) (clock (2 * k + 1)) s = Some t \<and>
     worker_loop C clock k s =
       Some (t\<lparr>worker_at := Stopped,
               trace := trace t @ Unlock # Lock # wake_trace C t @ [Access ShouldStop, Unlock]\<rparr>)"
proof -
  obtain t where t: "eat_jobs C (clock (2 * k)) (clock (2 * k + 1)) s = Some t"
    "should_stop t = should_stop s" "worker_at t = worker_at s"
    using eat_jobs_keeps [of C "clock (2 * k)" "clock (2 * k + 1)" s] by blast
  let ?u = "t\<lparr>trace := trace t @ [Unlock], worker_at := Waiting\<rparr>"
  have "worker_loop C clock k s = worker_loop C clock (Suc k) ?u"
    using assms t by (subst worker_loop.simps) (simp add: worker_step_draining)
  also have "\<dots> = Some (?u\<lparr>worker_at := Stopped,
             trace := trace ?u @ Lock # wake_trace C ?u @ [Access ShouldStop, Unlock]\<rparr>)"
    using assms t by (intro worker_loop_waiting_stop) simp_all
  finally show ?thesis using t by (simp add: wake_trace_def)
qed

lemma terminate_processing_closed:
  "worker_at s \<noteq> Draining \<Longrightarrow>
   terminate_processing C clock s =
     Some (s\<lparr>should_stop := True,
             worker_at := (if worker_joinable s then Stopped else worker_at s),
             worker_joinable := False,
             trace := trace s @ [Lock, Access ShouldStop, Unlock, NotifyOne] @
               (if worker_joinable s \<and> worker_at s = Waiting
                then Lock # wake_trace C (s\<lparr>should_stop := True\<rparr>) @ [Access ShouldStop, Unlock]
                else [])\<rparr>)"
  by (cases "worker_at s")
     (auto simp: terminate_processing_def Let_def emit_def worker_loop_waiting_stop
       worker_loop_stopped wake_trace_def)

lemma terminate_processing_total:
  "\<exists>s' evs. terminate_processing C clock s = Some s' \<and>
     trace s' = trace s @ [Lock, Access ShouldStop, Unlock, NotifyOne] @ evs \<and>
     search_flags evs = [] \<and>
     should_stop s' \<and> \<not> worker_joinable s' \<and>
     worker_at s' = (if worker_joinable s then Stopped else worker_at s)"
proof (cases "worker_at s = Draining \<and> worker_joinable s")
  case False
  then have "worker_at s \<noteq> Draining \<or> \<not> worker_joinable s" by blast
  then show ?thesis
  proof
    assume "worker_at s \<noteq> Draining"
    then show ?thesis
      using terminate_processing_closed [of s C clock]
      by (simp add: search_flags_append wake_trace_reads)
  next
    assume "\<not> worker_joinable s"
    then show ?thesis
      by (simp add: terminate_processing_def Let_def emit_def)
  qed
next
  case True
  let ?s2 = "s\<lparr>should_stop := True,
      trace := trace s @ [Lock, Access ShouldStop, Unlock, NotifyOne]\<rparr>"
  have d: "worker_at ?s2 = Draining" "should_stop ?s2" using True by simp_all
  obtain t evs where t: "eat_jobs C (clock (2 * 0)) (clock (2 * 0 + 1)) ?s2 = Some t"
    "trace t = trace ?s2 @ evs" "search_flags evs = []" "should_stop t = should_stop ?s2"
    using eat_jobs_keeps [of C "clock (2 * 0)" "clock (2 * 0 + 1)" ?s2] by blast
  from worker_loop_draining_stop [OF d, of C clock 0] t
  have w: "worker_loop C clock 0 ?s2 =
       Some (t\<lparr>worker_at := Stopped,
               trace := trace t @ Unlock # Lock # wake_trace C t @ [Access ShouldStop, Unlock]\<rparr>)"
    by simp
  have e: "terminate_processing C clock s =
      map_option (\<lambda>s3. s3\<lparr>worker_joinable := False\<rparr>) (worker_loop C clock 0 ?s2)"
    using True by (simp add: terminate_processing_def Let_def emit_def)
  show ?thesis
    unfolding e w using t True
    by (simp add: search_flags_append wake_trace_reads)
qed

lemma dispatch_after_stop:
  assumes "worker_at s = Stopped" "\<not> worker_joinable s"
  shows "\<exists>r s'. dispatch C clock req s = Some (r, s') \<and> worker_at s' = Stopped \<and>
     \<not> worker_joinable s' \<and> (should_stop s \<longrightarrow> should_stop s') \<and>
     drain_calls (trace s') = drain_calls (trace s)"
proof (cases req)
  case Terminate_processing
  from assms have "worker_at s \<noteq> Draining" by simp
  from terminate_processing_closed [OF this, of C clock] assms Terminate_processing
  show ?thesis by (simp add: drain_calls_append)
next
  case Run_scheduled_task
  then show ?thesis
    using assms unfolding Run_scheduled_task dispatch.simps run_scheduled_task_closed
    by (simp add: drain_calls_append forwarded_reads)
qed (use assms in \<open>simp_all add: ignored_event_def insert_pending_records_def record_size_def
      refresh_mount_status_def device_available_def fetch_mount_point_for_device_def
      get_index_directory_def set_index_change_filter_def add_index_delay_def
      remove_index_delay_def search_def removePath_def hasLFT_def addPath_def
      index_files_in_directory_def Let_def emit_def drain_calls_append
      split: option.splits\<close>)

lemma run_after_stop:
  "worker_at s = Stopped \<Longrightarrow> \<not> worker_joinable s \<Longrightarrow> should_stop s \<Longrightarrow>
   \<exists>s'. run C clock acts s = Some s' \<and> worker_at s' = Stopped \<and> \<not> worker_joinable s' \<and>
     should_stop s' \<and> drain_calls (trace s') = drain_calls (trace s) \<and>
     run C clock (filter is_call acts) s = Some s'"
proof (induction acts arbitrary: s)
  case Nil
  then show ?case by simp
next
  case (Cons a acts)
  show ?case
  proof (cases a)
    case (Call req)
    from dispatch_after_stop [OF Cons.prems(1,2), of C clock req] Cons.prems(3)
    obtain r t where t: "dispatch C clock req s = Some (r, t)" "worker_at t = Stopped"
      "\<not> worker_joinable t" "should_stop t" "drain_calls (trace t) = drain_calls (trace s)"
      by blast
    from Cons.IH [OF t(2,3,4)] t(1,5) Call show ?thesis by auto
  next
    case (Worker now now')
    from Cons.IH [OF Cons.prems] Worker Cons.prems(1) show ?thesis
      by (simp add: worker_step_stopped)
  qed
qed


lemma should_stop_stays:
  "should_stop s \<Longrightarrow> act C clock a s = Some s' \<Longrightarrow> should_stop s'"
proof (cases a)
  case (Worker now now')
  assume s: "should_stop s" and a: "act C clock a s = Some s'"
  show ?thesis
  proof (cases "worker_at s")
    case Waiting
    with s a Worker show ?thesis by (auto simp: worker_step_waiting)
  next
    case Draining
    with s a Worker eat_jobs_keeps [of C now now' s] show ?thesis
      by (auto simp: worker_step_draining)
  next
    case Stopped
    with s a Worker show ?thesis by (simp add: worker_step_stopped)
  qed
next
  case (Call req)
  assume s: "should_stop s" and a: "act C clock a s = Some s'"
  show ?thesis
  proof (cases req)
    case Terminate_processing
    with a Call terminate_processing_total [of C clock s] show ?thesis by auto
  next
    case Run_scheduled_task
    with s a Call show ?thesis
      unfolding Run_scheduled_task
      by (auto simp: run_scheduled_task_closed)
  qed (use s a Call in \<open>auto simp: ignored_event_def insert_pending_records_def record_size_def
      refresh_mount_status_def device_available_def fetch_mount_point_for_device_def
      get_index_directory_def set_index_change_filter_def add_index_delay_def
      remove_index_delay_def search_def removePath_def hasLFT_def addPath_def
      index_files_in_directory_def Let_def emit_def
      split: option.splits if_splits\<close>)
qed

lemma joinable_or_stopped_stays:
  assumes inv: "worker_joinable s \<or> worker_at s = Stopped"
    and a: "act C clock a s = Some s'"
  shows "worker_joinable s' \<or> worker_at s' = Stopped"
proof (cases a)
  case (Worker now now')
  show ?thesis
  proof (cases "worker_at s")
    case Waiting
    with inv a Worker show ?thesis by (auto simp: worker_step_waiting)
  next
    case Draining
    with inv a Worker eat_jobs_keeps [of C now now' s] show ?thesis
      by (auto simp: worker_step_draining)
  next
    case Stopped
    with inv a Worker show ?thesis by (simp add: worker_step_stopped)
  qed
next
  case (Call req)
  show ?thesis
  proof (cases req)
    case Terminate_processing
    with inv a Call terminate_processing_total [of C clock s] show ?thesis
      by (auto split: if_splits)
  next
    case Run_scheduled_task
    with inv a Call show ?thesis
      unfolding Run_scheduled_task
      by (auto simp: run_scheduled_task_closed)
  qed (use inv a Call in \<open>auto simp: ignored_event_def insert_pending_records_def record_size_def
      refresh_mount_status_def device_available_def fetch_mount_point_for_device_def
      get_index_directory_def set_index_change_filter_def add_index_delay_def
      remove_index_delay_def search_def removePath_def hasLFT_def addPath_def
      index_files_in_directory_def Let_def emit_def
      split: option.splits if_splits\<close>)
qed

lemma run_scheduled_task_unguarded:
  "\<exists>s'. run_scheduled_task C s = Some s' \<and>
     unguarded False (appended s s') =
       replicate (if records s = [] then 1 else 2 + min 500 (length (records s))) (Access Records)"
  unfolding run_scheduled_task_closed
  by (simp add: appended_def unguarded_append holds_append forwarded_reads
      replicate_append_same)

lemma worker_round_guarded:
  assumes "worker_at s = Waiting"
  shows "\<exists>s' s''. worker_step C now now' s = Some s' \<and> worker_step C now now' s' = Some s'' \<and>
     unguarded False (appended s s'') = []"
proof (cases "should_stop s")
  case True
  let ?s' = "s\<lparr>worker_at := Stopped,
      trace := trace s @ Lock # wake_trace C s @ [Access ShouldStop, Unlock]\<rparr>"
  have "worker_step C now now' s = Some ?s'"
    using assms True by (simp add: worker_step_waiting woken_def)
  moreover have "worker_step C now now' ?s' = Some ?s'"
    by (simp add: worker_step_stopped)
  moreover have "unguarded False (appended s ?s') = []"
    by (simp add: appended_def unguarded_append holds_append wake_trace_reads)
  ultimately show ?thesis by blast
next
  case False
  let ?w = "Lock # wake_trace C s @ (if woken C s then [Access ShouldStop] else [])"
  let ?s' = "s\<lparr>worker_at := Draining, trace := trace s @ ?w\<rparr>"
  have 1: "worker_step C now now' s = Some ?s'"
    using assms False by (simp add: worker_step_waiting)
  obtain t evs where t: "eat_jobs C now now' ?s' = Some t" "trace t = trace ?s' @ evs"
    "unguarded True evs = []" "holds True evs = True"
    using eat_jobs_keeps [of C now now' ?s'] by blast
  let ?s'' = "t\<lparr>trace := trace t @ [Unlock], worker_at := Waiting\<rparr>"
  have 2: "worker_step C now now' ?s' = Some ?s''"
    using t(1) by (simp add: worker_step_draining)
  have "appended s ?s'' = ?w @ evs @ [Unlock]"
    using t(2) by (simp add: appended_def)
  then have 3: "unguarded False (appended s ?s'') = []"
    using t(3,4) by (simp add: unguarded_append holds_append wake_trace_reads)
  from 1 2 3 show ?thesis by blast
qed

lemma dispatch_search_flags:
  "\<exists>r s'. dispatch C clock req s = Some (r, s') \<and> False \<notin> set (search_flags (appended s s'))"
proof (cases req)
  case Terminate_processing
  with terminate_processing_total [of C clock s] show ?thesis
    by (auto simp: appended_def search_flags_append)
next
  case Run_scheduled_task
  show ?thesis
    unfolding Run_scheduled_task dispatch.simps run_scheduled_task_closed
    by (simp add: appended_def search_flags_append forwarded_reads)
qed (simp_all add: ignored_event_def insert_pending_records_def record_size_def
      refresh_mount_status_def device_available_def fetch_mount_point_for_device_def
      get_index_directory_def set_index_change_filter_def add_index_delay_def
      remove_index_delay_def search_def removePath_def hasLFT_def addPath_def
      index_files_in_directory_def Let_def emit_def appended_def
      split: option.splits)

lemma worker_step_search_flags:
  "\<exists>s'. worker_step C now now' s = Some s' \<and> search_flags (appended s s') = []"
proof (cases "worker_at s")
  case Waiting
  then show ?thesis
    by (simp add: worker_step_waiting appended_def search_flags_append wake_trace_reads)
next
  case Draining
  obtain t evs where "eat_jobs C now now' s = Some t" "trace t = trace s @ evs"
    "search_flags evs = []"
    using eat_jobs_keeps [of C now now' s] by blast
  with Draining show ?thesis
    by (simp add: worker_step_draining appended_def search_flags_append)
next
  case Stopped
  then show ?thesis by (simp add: worker_step_stopped appended_def)
qed

lemma ends_with_iff: "ends_with s suffix = (\<exists>stem. s = stem @ suffix)"
proof
  assume "ends_with s suffix"
  then have "s = take (length s - length suffix) s @ suffix"
    by (metis append_take_drop_id ends_with_def)
  then show "\<exists>stem. s = stem @ suffix" ..
next
  assume "\<exists>stem. s = stem @ suffix"
  then show "ends_with s suffix" by (auto simp: ends_with_def)
qed

lemma sint_diff_in_range:
  fixes a b :: "64 word"
  assumes "- (2 ^ 63) \<le> sint a - sint b" "sint a - sint b < 2 ^ 63"
  shows "sint (a - b) = sint a - sint b"
  using assms by (simp add: sint_word_ariths signed_take_bit_int_eq_self)

lemma with_other_search_fields [simp]:
  "im_add_index (with_other_search g C) = im_add_index C"
  "im_add_index_delay (with_other_search g C) = im_add_index_delay C"
  "im_remove_index (with_other_search g C) = im_remove_index C"
  "im_remove_index_delay (with_other_search g C) = im_remove_index_delay C"
  "im_deletion_jobs_ready (with_other_search g C) = im_deletion_jobs_ready C"
  "im_process_deletion_jobs (with_other_search g C) = im_process_deletion_jobs C"
  "im_document_exists (with_other_search g C) = im_document_exists C"
  "im_set_index_change_filter (with_other_search g C) = im_set_index_change_filter C"
  "im_index_directory (with_other_search g C) = im_index_directory C"
  "mm_update (with_other_search g C) = mm_update C"
  "mm_contains_device (with_other_search g C) = mm_contains_device C"
  "mm_get_mount_point (with_other_search g C) = mm_get_mount_point C"
  "mm_path_match_type (with_other_search g C) = mm_path_match_type C"
  "generate_file_record (with_other_search g C) = generate_file_record C"
  "im_search (with_other_search g C) path keywords offset max_count True =
     im_search C path keywords offset max_count True"
  by (simp_all add: with_other_search_def)

lemma eat_jobs_other_search:
  "eat_jobs (with_other_search g C) now now' s = eat_jobs C now now' s"
  unfolding eat_jobs_closed by (simp add: flushed_store_def)

lemma wake_other_search [simp]:
  "wake_trace (with_other_search g C) s = wake_trace C s"
  "woken (with_other_search g C) s = woken C s"
  by (simp_all add: wake_trace_def woken_def)

lemma worker_step_other_search:
  "worker_step (with_other_search g C) now now' s = worker_step C now now' s"
  by (cases "worker_at s")
     (simp_all add: worker_step_waiting worker_step_draining worker_step_stopped
        eat_jobs_other_search)

lemma terminate_processing_draining:
  assumes "worker_at s = Draining"
  shows "terminate_processing C clock s =
     (if worker_joinable s then
        map_option
          (\<lambda>t. t\<lparr>worker_at := Stopped,
                 trace := trace t @ Unlock # Lock # wake_trace C t @ [Access ShouldStop, Unlock],
                 worker_joinable := False\<rparr>)
          (eat_jobs C (clock 0) (clock 1)
             (s\<lparr>should_stop := True,
                trace := trace s @ [Lock, Access ShouldStop, Unlock, NotifyOne]\<rparr>))
      else Some (s\<lparr>should_stop := True,
                   trace := trace s @ [Lock, Access ShouldStop, Unlock, NotifyOne]\<rparr>))"
proof (cases "worker_joinable s")
  case False
  then show ?thesis by (simp add: terminate_processing_def Let_def emit_def)
next
  case True
  let ?s2 = "s\<lparr>should_stop := True,
      trace := trace s @ [Lock, Access ShouldStop, Unlock, NotifyOne]\<rparr>"
  have d: "worker_at ?s2 = Draining" "should_stop ?s2" using assms by simp_all
  from worker_loop_draining_stop [OF d, of C clock 0]
  obtain t where t: "eat_jobs C (clock 0) (clock 1) ?s2 = Some t"
    "worker_loop C clock 0 ?s2 =
       Some (t\<lparr>worker_at := Stopped,
               trace := trace t @ Unlock # Lock # wake_trace C t @ [Access ShouldStop, Unlock]\<rparr>)"
    by auto
  have e: "terminate_processing C clock s =
      map_option (\<lambda>s3. s3\<lparr>worker_joinable := False\<rparr>) (worker_loop C clock 0 ?s2)"
    using True by (simp add: terminate_processing_def Let_def emit_def)
  show ?thesis unfolding e using t True by simp
qed

lemma terminate_processing_other_search:
  "terminate_processing (with_other_search g C) clock s = terminate_processing C clock s"
proof (cases "worker_at s = Draining")
  case True
  then show ?thesis
    by (simp add: terminate_processing_draining eat_jobs_other_search)
next
  case False
  then show ?thesis by (simp add: terminate_processing_closed)
qed

lemma dispatch_other_search:
  "dispatch (with_other_search g C) clock req s = dispatch C clock req s"
proof (cases req)
  case Terminate_processing
  then show ?thesis by (simp add: terminate_processing_other_search)
next
  case Run_scheduled_task
  then show ?thesis by (simp add: run_scheduled_task_closed)
qed (simp_all add: ignored_event_def insert_pending_records_def record_size_def
      refresh_mount_status_def device_available_def fetch_mount_point_for_device_def
      get_index_directory_def set_index_change_filter_def add_index_delay_def
      remove_index_delay_def search_def removePath_def hasLFT_def addPath_def
      index_files_in_directory_def Let_def split: option.splits)

section \<open>The claims\<close>

text \<open>
  C1. One call of \<open>run_scheduled_task\<close> returns, whatever the pending buffer holds.
  With \<open>k = min 500 (length records)\<close>, it removes the first \<open>k\<close> records and
  keeps the rest in order, the index manager has received \<open>add_index_delay\<close> for
  exactly these \<open>k\<close> records in insertion order (and no other store call), the
  buffer is shorter by exactly \<open>k\<close>, and \<open>k\<close> is at most 500.
\<close>

theorem run_scheduled_task_drains_front:
  "\<exists>s'. run_scheduled_task C s = Some s' \<and>
     records s' = drop (min 500 (length (records s))) (records s) \<and>
     take (min 500 (length (records s))) (records s) @ records s' = records s \<and>
     index_manager s' = fold (im_add_index_delay C)
        (take (min 500 (length (records s))) (records s)) (index_manager s) \<and>
     store_calls (appended s s') =
        map Im_add_index_delay (take (min 500 (length (records s))) (records s)) \<and>
     length (records s') + min 500 (length (records s)) = length (records s) \<and>
     fst (record_size s') = fst (record_size s) - min 500 (fst (record_size s)) \<and>
     length (records s) - length (records s') \<le> 500 \<and>
     addition_jobs s' = addition_jobs s \<and> mnt_manager s' = mnt_manager s \<and>
     should_stop s' = should_stop s"
  unfolding run_scheduled_task_closed
  by (simp add: appended_def store_calls_append store_calls_forwarded record_size_def)

theorem run_scheduled_task_drains_front_witness:
  "\<exists>s'. run_scheduled_task (spec_collaborators [])
          (insert_pending_records (replicate 600 ''/f'') (constructed ''/idx'' [] 5 0)) = Some s' \<and>
        length (records s') = 100 \<and>
        delayed_additions (index_manager s') = replicate 500 ''/f''"
proof -
  let ?C = "spec_collaborators [] :: (string, index_store, mount_snapshot) collaborators"
  let ?s = "insert_pending_records (replicate 600 ''/f'') (constructed ''/idx'' [] 5 0)"
  have r: "records ?s = replicate 600 ''/f''"
    by (simp add: insert_pending_records_def constructed_def emit_def)
  have f: "(im_add_index_delay ?C ''/f'' ^^ n) st =
             st\<lparr>delayed_additions := delayed_additions st @ replicate n ''/f''\<rparr>" for n st
    by (induction n arbitrary: st)
       (simp_all add: spec_collaborators_def store_add_index_delay_def replicate_append_same)
  have i: "delayed_additions (index_manager ?s) = []"
    by (simp add: insert_pending_records_def constructed_def emit_def)
  from run_scheduled_task_drains_front [of ?C ?s] show ?thesis
    unfolding r using i by (auto simp: f)
qed

text \<open>
  C2. One drain cycle of the worker (\<open>eat_jobs\<close>) returns. When the queue holds
  more than \<open>batch_size_\<close> jobs or \<open>now - last_addition_time_\<close> is at
  least \<open>batch_interval_\<close>, exactly \<open>min batch_size_ (size of the queue)\<close>
  jobs leave the front of the queue, each goes to the index manager's \<open>add_index\<close>
  in queue order, and \<open>last_addition_time_\<close> becomes the clock value read after
  the adds; otherwise the queue, the time and the store are as before. In both cases the
  index manager is then asked \<open>deletion_jobs_ready\<close> and, when it says yes,
  \<open>process_deletion_jobs\<close> is called. Never more than \<open>batch_size_\<close> jobs
  are flushed. The elapsed time is the signed 64-bit difference that the code computes;
  it is the difference of the two tick counts as integers whenever that difference fits
  in 64 bits (second conjunct), and wraps around otherwise (the third case of the
  witness: the last flush at the least tick count, no flush).
\<close>

theorem eat_jobs_flushes_batch:
  "\<exists>s'. eat_jobs C now now' s = Some s' \<and>
     flush_count now s =
       (if length (addition_jobs s) > batch_size s
           \<or> sint (now - last_addition_time s) \<ge> sint (batch_interval s)
        then min (batch_size s) (length (addition_jobs s)) else 0) \<and>
     (- (2 ^ 63) \<le> sint now - sint (last_addition_time s) \<and>
      sint now - sint (last_addition_time s) < 2 ^ 63 \<longrightarrow>
        flush_count now s =
          (if length (addition_jobs s) > batch_size s
              \<or> sint now - sint (last_addition_time s) \<ge> sint (batch_interval s)
           then min (batch_size s) (length (addition_jobs s)) else 0)) \<and>
     flush_count now s \<le> batch_size s \<and>
     addition_jobs s' = drop (flush_count now s) (addition_jobs s) \<and>
     take (flush_count now s) (addition_jobs s) @ addition_jobs s' = addition_jobs s \<and>
     last_addition_time s' =
       (if length (addition_jobs s) > batch_size s
           \<or> sint (now - last_addition_time s) \<ge> sint (batch_interval s)
        then now' else last_addition_time s) \<and>
     flushed_store C now s =
       fold (im_add_index C) (take (flush_count now s) (addition_jobs s)) (index_manager s) \<and>
     index_manager s' =
       (if im_deletion_jobs_ready C (flushed_store C now s)
        then im_process_deletion_jobs C (flushed_store C now s) else flushed_store C now s) \<and>
     store_calls (appended s s') =
       map Im_add_index (take (flush_count now s) (addition_jobs s)) @
       Im_deletion_jobs_ready #
       (if im_deletion_jobs_ready C (flushed_store C now s) then [Im_process_deletion_jobs] else []) \<and>
     records s' = records s \<and> should_stop s' = should_stop s \<and> batch_size s' = batch_size s"
proof -
  have exact: "- (2 ^ 63) \<le> sint now - sint (last_addition_time s) \<and>
      sint now - sint (last_addition_time s) < 2 ^ 63 \<longrightarrow>
        flush_count now s =
          (if length (addition_jobs s) > batch_size s
              \<or> sint now - sint (last_addition_time s) \<ge> sint (batch_interval s)
           then min (batch_size s) (length (addition_jobs s)) else 0)"
    by (simp add: flush_count_def flush_due_def sint_diff_in_range)
  show ?thesis
    unfolding eat_jobs_closed using exact
    by (simp add: appended_def store_calls_append store_calls_eaten flush_count_def flush_due_def
        flushed_store_def)
qed

theorem eat_jobs_flushes_batch_witness:
  "(\<exists>s'. eat_jobs (spec_collaborators []) 3 4
          ((constructed ''/idx'' [] 5 0)\<lparr>addition_jobs := replicate 101 ''/f''\<rparr>) = Some s' \<and>
        addition_jobs s' = [''/f''] \<and> last_addition_time s' = 4) \<and>
   (\<exists>s'. eat_jobs (spec_collaborators []) 10 11
          ((constructed ''/idx'' [] 5 0)\<lparr>addition_jobs := [''/j0'']\<rparr>) = Some s' \<and>
        addition_jobs s' = [] \<and> last_addition_time s' = 11 \<and>
        indexed (index_manager s') = [''/j0'']) \<and>
   (\<exists>s'. eat_jobs (spec_collaborators []) 11000000 11000001
          ((constructed ''/idx'' [] 5 (- 9223372036854775808))\<lparr>addition_jobs := [''/j0'']\<rparr>)
            = Some s' \<and>
        addition_jobs s' = [''/j0''] \<and> last_addition_time s' = - 9223372036854775808 \<and>
        indexed (index_manager s') = [])"
proof -
  let ?C = "spec_collaborators [] :: (string, index_store, mount_snapshot) collaborators"
  let ?s = "(constructed ''/idx'' [] 5 0)\<lparr>addition_jobs := replicate 101 ''/f''\<rparr>"
  let ?t = "(constructed ''/idx'' [] 5 0)\<lparr>addition_jobs := [''/j0'']\<rparr>"
  let ?u = "(constructed ''/idx'' [] 5 (- 9223372036854775808))\<lparr>addition_jobs := [''/j0'']\<rparr>"
  have c: "flush_count 3 ?s = 100" "flush_count 10 ?t = 1" "flush_count 11000000 ?u = 0"
    by (simp_all add: flush_count_def flush_due_def constructed_def)
  have d: "drop 100 (replicate 101 ''/f'') = [''/f'']"
    by simp
  have 1: "\<exists>s'. eat_jobs ?C 3 4 ?s = Some s' \<and>
        addition_jobs s' = [''/f''] \<and> last_addition_time s' = 4"
    using eat_jobs_flushes_batch [of ?C 3 4 ?s] unfolding c using d
    by (auto simp: constructed_def)
  have 2: "\<exists>s'. eat_jobs ?C 10 11 ?t = Some s' \<and>
        addition_jobs s' = [] \<and> last_addition_time s' = 11 \<and>
        indexed (index_manager s') = [''/j0'']"
    using eat_jobs_flushes_batch [of ?C 10 11 ?t] unfolding c
    by (auto simp: constructed_def flushed_store_def c spec_collaborators_def
        store_add_index_def store_deletion_jobs_ready_def)
  have 3: "\<exists>s'. eat_jobs ?C 11000000 11000001 ?u = Some s' \<and>
        addition_jobs s' = [''/j0''] \<and> last_addition_time s' = - 9223372036854775808 \<and>
        indexed (index_manager s') = []"
    using eat_jobs_flushes_batch [of ?C 11000000 11000001 ?u] unfolding c
    by (auto simp: constructed_def flushed_store_def c spec_collaborators_def
        store_deletion_jobs_ready_def)
  from 1 2 3 show ?thesis by blast
qed

text \<open>
  C3. \<open>ignored_event\<close> is a function of the path, the flag and the mount manager.
  For a path that ends with \<open>.longname\<close> it returns true, whatever the flag and
  the mounts are, and asks nothing. Otherwise, with the flag false, it asks the mount
  manager whether the mount of the path has the type \<open>fuse.dlnfs\<close> and returns
  the answer. Otherwise it returns false: with the flag true and a path that does not
  end with the suffix the result is false and the mount manager is not asked (the
  handler is as before, its trace too).
\<close>

theorem ignored_event_decides:
  "ignored_event C path ignored s =
     (ends_with path ''.longname'' \<or>
        (\<not> ignored \<and> mm_path_match_type C path ''fuse.dlnfs'' (mnt_manager s)),
      if ends_with path ''.longname'' \<or> ignored then s
      else emit (Mount (Mm_path_match_type path ''fuse.dlnfs'')) s) \<and>
   (if ends_with path ''.longname'' then ignored_event C path ignored s = (True, s)
    else ignored_event C path True s = (False, s)) \<and>
   ends_with path ''.longname'' = (\<exists>stem. path = stem @ ''.longname'')"
  unfolding ends_with_iff [symmetric]
  by (simp add: ignored_event_def Let_def emit_def)

theorem ignored_event_decides_witness:
  "ignored_event (spec_collaborators []) ''x.longname'' False (constructed ''/idx'' [] 5 0) =
     (True, constructed ''/idx'' [] 5 0) \<and>
   ignored_event (spec_collaborators []) ''x.longname'' True (constructed ''/idx'' [] 5 0) =
     (True, constructed ''/idx'' [] 5 0) \<and>
   ignored_event (spec_collaborators []) ''/mnt/dl/a'' True
       (constructed ''/idx'' [(1, ''/mnt/dl'', ''fuse.dlnfs'')] 5 0) =
     (False, constructed ''/idx'' [(1, ''/mnt/dl'', ''fuse.dlnfs'')] 5 0) \<and>
   fst (ignored_event (spec_collaborators []) ''/mnt/dl/a'' False
       (constructed ''/idx'' [(1, ''/mnt/dl'', ''fuse.dlnfs'')] 5 0))"
proof -
  let ?C = "spec_collaborators [] :: (string, index_store, mount_snapshot) collaborators"
  have a: "ends_with ''x.longname'' ''.longname''"
    by (simp add: ends_with_def)
  have b: "\<not> ends_with ''/mnt/dl/a'' ''.longname''"
    by (simp add: ends_with_def)
  have c: "mm_path_match_type ?C ''/mnt/dl/a'' ''fuse.dlnfs''
             (mnt_manager (constructed ''/idx'' [(1, ''/mnt/dl'', ''fuse.dlnfs'')] 5 0))"
    by (simp add: spec_collaborators_def snapshot_path_match_type_def constructed_def)
  show ?thesis
    using ignored_event_decides [of ?C "''x.longname''" False "constructed ''/idx'' [] 5 0"]
      ignored_event_decides [of ?C "''x.longname''" True "constructed ''/idx'' [] 5 0"]
      ignored_event_decides [of ?C "''/mnt/dl/a''" True
        "constructed ''/idx'' [(1, ''/mnt/dl'', ''fuse.dlnfs'')] 5 0"]
      ignored_event_decides [of ?C "''/mnt/dl/a''" False
        "constructed ''/idx'' [(1, ''/mnt/dl'', ''fuse.dlnfs'')] 5 0"]
      a b c
    by simp
qed

text \<open>
  C4. When no record can be generated for the path, \<open>addPath\<close> returns false and
  the handler is as before (no lock, no call of the index manager), so \<open>hasLFT\<close>
  answers as before. When a record is generated, \<open>addPath\<close> calls the index
  manager's \<open>add_index_delay\<close> with it, under the lock, and returns what
  \<open>document_exists\<close> answers after that call; \<open>hasLFT\<close> afterwards answers
  the same. On the store of the spec, where a path exists as soon as its addition is
  queued, \<open>addPath\<close> returns true exactly when the record is generated, and
  \<open>hasLFT\<close> is true afterwards.
\<close>

theorem addPath_reports_document_exists:
  "addPath C path s =
     (case generate_file_record C path of
        None \<Rightarrow> (False, s)
      | Some record \<Rightarrow>
          (im_document_exists C path (im_add_index_delay C record (index_manager s)),
           s\<lparr>index_manager := im_add_index_delay C record (index_manager s),
             trace := trace s @ [Lock, Store (Im_add_index_delay record),
                                 Store (Im_document_exists path), Unlock]\<rparr>)) \<and>
   fst (hasLFT C path (snd (addPath C path s))) =
     (if generate_file_record C path = None then fst (hasLFT C path s)
      else fst (addPath C path s)) \<and>
   fst (addPath (spec_collaborators files) path t) =
     (generate_file_record (spec_collaborators files) path \<noteq> None) \<and>
   fst (hasLFT (spec_collaborators files) path
          (snd (addPath (spec_collaborators files) path t))) =
     (generate_file_record (spec_collaborators files) path \<noteq> None
        \<or> fst (hasLFT (spec_collaborators files) path t))"
  by (simp add: addPath_def hasLFT_def Let_def emit_def spec_collaborators_def
      store_add_index_delay_def store_document_exists_def split: option.splits)

theorem addPath_reports_document_exists_witness:
  "addPath (spec_collaborators [''/a'']) ''/b'' (constructed ''/idx'' [] 5 0) =
     (False, constructed ''/idx'' [] 5 0) \<and>
   \<not> fst (hasLFT (spec_collaborators [''/a'']) ''/a'' (constructed ''/idx'' [] 5 0)) \<and>
   fst (addPath (spec_collaborators [''/a'']) ''/a'' (constructed ''/idx'' [] 5 0)) \<and>
   fst (hasLFT (spec_collaborators [''/a'']) ''/a''
     (snd (addPath (spec_collaborators [''/a'']) ''/a'' (constructed ''/idx'' [] 5 0)))) \<and>
   delayed_additions (index_manager
     (snd (addPath (spec_collaborators [''/a'']) ''/a'' (constructed ''/idx'' [] 5 0)))) = [''/a'']"
proof -
  let ?C = "spec_collaborators [''/a''] :: (string, index_store, mount_snapshot) collaborators"
  let ?s = "constructed ''/idx'' [] 5 0"
  have f: "generate_file_record ?C ''/b'' = None"
    by (simp add: spec_collaborators_def)
  have g: "generate_file_record ?C ''/a'' = Some ''/a''"
    by (simp add: spec_collaborators_def)
  have h: "im_add_index_delay ?C = store_add_index_delay"
    by (simp add: spec_collaborators_def)
  have b: "\<not> fst (hasLFT ?C ''/a'' ?s)"
    by (simp add: hasLFT_def Let_def emit_def spec_collaborators_def store_document_exists_def
        constructed_def)
  show ?thesis
    using addPath_reports_document_exists [of ?C "''/b''" ?s "[''/a'']" ?s]
      addPath_reports_document_exists [of ?C "''/a''" ?s "[''/a'']" ?s] b
    by (auto simp: f g h store_add_index_delay_def constructed_def)
qed

text \<open>
  C5. \<open>removePath\<close> always calls the index manager's \<open>remove_index\<close> for
  the path, under the lock, and returns the negation of \<open>document_exists\<close> asked
  after the removal; \<open>hasLFT\<close> afterwards is the negation of what it returned.
  Whether or not the path was indexed before does not matter. On the store of the spec,
  where a removal by path takes the path out at once, \<open>hasLFT\<close> is false afterwards
  and \<open>removePath\<close> returns true.
\<close>

theorem removePath_removes:
  "removePath C path s =
     (\<not> im_document_exists C path (im_remove_index C path (index_manager s)),
      s\<lparr>index_manager := im_remove_index C path (index_manager s),
        trace := trace s @ [Lock, Store (Im_remove_index path),
                            Store (Im_document_exists path), Unlock]\<rparr>) \<and>
   fst (hasLFT C path (snd (removePath C path s))) = (\<not> fst (removePath C path s)) \<and>
   fst (removePath (spec_collaborators files) path t) = True \<and>
   fst (hasLFT (spec_collaborators files) path
          (snd (removePath (spec_collaborators files) path t))) = False"
  by (simp add: removePath_def hasLFT_def Let_def emit_def spec_collaborators_def
      store_remove_index_def store_document_exists_def)

theorem removePath_removes_witness:
  "fst (hasLFT (spec_collaborators []) ''/a''
     ((constructed ''/idx'' [] 5 0)\<lparr>index_manager :=
          (index_manager (constructed ''/idx'' [] 5 0))\<lparr>indexed := [''/a'', ''/b'']\<rparr>\<rparr>)) \<and>
   indexed (index_manager (snd (removePath (spec_collaborators []) ''/a''
     ((constructed ''/idx'' [] 5 0)\<lparr>index_manager :=
          (index_manager (constructed ''/idx'' [] 5 0))\<lparr>indexed := [''/a'', ''/b'']\<rparr>\<rparr>)))) = [''/b''] \<and>
   fst (removePath (spec_collaborators []) ''/c'' (constructed ''/idx'' [] 5 0))"
proof -
  let ?C = "spec_collaborators [] :: (string, index_store, mount_snapshot) collaborators"
  let ?s = "(constructed ''/idx'' [] 5 0)\<lparr>index_manager :=
          (index_manager (constructed ''/idx'' [] 5 0))\<lparr>indexed := [''/a'', ''/b'']\<rparr>\<rparr>"
  have h: "fst (hasLFT ?C ''/a'' ?s)"
    by (simp add: hasLFT_def Let_def emit_def spec_collaborators_def store_document_exists_def
        constructed_def)
  have r: "im_remove_index ?C = store_remove_index"
    by (simp add: spec_collaborators_def)
  show ?thesis
    using removePath_removes [of ?C "''/a''" ?s "[]" ?s]
      removePath_removes [of ?C "''/c''" "constructed ''/idx'' [] 5 0" "[]"
        "constructed ''/idx'' [] 5 0"] h
    by (auto simp: r store_remove_index_def constructed_def)
qed

text \<open>
  C6. For a negative \<open>offset\<close>, \<open>search\<close> returns the empty list and
  leaves the handler as it is: no lock, no call of the index manager. For every other
  \<open>offset\<close> it returns what the index manager's \<open>search\<close> gives for the
  same path, keywords, offset and count, called once under the lock.
\<close>

theorem search_rejects_negative_offset:
  "search C path keywords offset max_count s =
     (if sint offset < 0 then ([], s)
      else (im_search C path keywords offset max_count True (index_manager s),
            s\<lparr>trace := trace s @
               [Lock, Store (Im_search path keywords offset max_count True), Unlock]\<rparr>)) \<and>
   store_calls (appended s (snd (search C path keywords offset max_count s))) =
     (if sint offset < 0 then [] else [Im_search path keywords offset max_count True])"
  by (simp add: search_def Let_def emit_def appended_def)

theorem search_rejects_negative_offset_witness:
  "search (spec_collaborators []) ''/home'' ''report'' (- 1) 10
       ((constructed ''/idx'' [] 5 0)\<lparr>index_manager :=
          (index_manager (constructed ''/idx'' [] 5 0))\<lparr>indexed := [''/home/report'']\<rparr>\<rparr>) =
     ([], (constructed ''/idx'' [] 5 0)\<lparr>index_manager :=
          (index_manager (constructed ''/idx'' [] 5 0))\<lparr>indexed := [''/home/report'']\<rparr>\<rparr>) \<and>
   fst (search (spec_collaborators []) ''/home'' ''report'' 0 10
       ((constructed ''/idx'' [] 5 0)\<lparr>index_manager :=
          (index_manager (constructed ''/idx'' [] 5 0))\<lparr>indexed := [''/home/report'']\<rparr>\<rparr>)) =
     [''/home/report'']"
proof -
  let ?C = "spec_collaborators [] :: (string, index_store, mount_snapshot) collaborators"
  let ?s = "(constructed ''/idx'' [] 5 0)\<lparr>index_manager :=
          (index_manager (constructed ''/idx'' [] 5 0))\<lparr>indexed := [''/home/report'']\<rparr>\<rparr>"
  have n: "sint (- 1 :: 32 word) < 0" by simp
  have z: "\<not> sint (0 :: 32 word) < 0" by simp
  have q: "im_search ?C ''/home'' ''report'' 0 10 True (index_manager ?s) = [''/home/report'']"
    by (simp add: spec_collaborators_def store_search_def constructed_def)
  show ?thesis
    using search_rejects_negative_offset [of ?C "''/home''" "''report''" "- 1" 10 ?s]
      search_rejects_negative_offset [of ?C "''/home''" "''report''" 0 10 ?s] n z q
    by simp
qed

text \<open>
  C7. For a handler whose worker has not been joined (or has already stopped),
  \<open>terminate_processing\<close> returns, and then: \<open>should_stop_\<close> is set; it
  has, in this order, taken the lock, written the flag, released the lock and called
  \<open>notify_one\<close>; the worker's function has returned (the join waited for it)
  and the thread is no longer joinable. Unless the worker was in the middle of
  \<open>eat_jobs\<close>, the addition queue and the index manager are as before and no
  \<open>add_index\<close> or \<open>process_deletion_jobs\<close> happened. A second call
  sets the flag and notifies again and does not join. After the return, in every run of
  calls and worker steps, the worker stays stopped: the index manager gets no further
  \<open>add_index\<close> or \<open>process_deletion_jobs\<close>, and the run ends as it does
  with the worker's steps left out, whatever is enqueued. No call and no worker step
  ever unsets the flag. The hypothesis holds for the handler as constructed and after
  every call and every worker step.
\<close>

theorem terminate_processing_joins_worker:
  assumes "worker_joinable s \<or> worker_at s = Stopped"
  shows "\<exists>s'. terminate_processing C clock s = Some s' \<and>
     should_stop s' \<and> worker_at s' = Stopped \<and> \<not> worker_joinable s' \<and>
     take 4 (appended s s') = [Lock, Access ShouldStop, Unlock, NotifyOne] \<and>
     (worker_at s \<noteq> Draining \<longrightarrow>
        addition_jobs s' = addition_jobs s \<and> index_manager s' = index_manager s \<and>
        drain_calls (appended s s') = []) \<and>
     terminate_processing C clock s' =
       Some (s'\<lparr>trace := trace s' @ [Lock, Access ShouldStop, Unlock, NotifyOne]\<rparr>) \<and>
     (\<forall>acts. \<exists>s''. run C clock acts s' = Some s'' \<and>
        worker_at s'' = Stopped \<and> should_stop s'' \<and>
        drain_calls (trace s'') = drain_calls (trace s') \<and>
        run C clock (filter is_call acts) s' = Some s'') \<and>
     (\<forall>a t t'. should_stop t \<and> act C clock a t = Some t' \<longrightarrow> should_stop t') \<and>
     (\<forall>a t t'. (worker_joinable t \<or> worker_at t = Stopped) \<and> act C clock a t = Some t'
        \<longrightarrow> worker_joinable t' \<or> worker_at t' = Stopped)"
proof -
  obtain s' evs where s': "terminate_processing C clock s = Some s'"
    "trace s' = trace s @ [Lock, Access ShouldStop, Unlock, NotifyOne] @ evs"
    "should_stop s'" "\<not> worker_joinable s'"
    "worker_at s' = (if worker_joinable s then Stopped else worker_at s)"
    using terminate_processing_total [of C clock s] by blast
  from s'(5) assms have st: "worker_at s' = Stopped" by auto
  have four: "take 4 (appended s s') = [Lock, Access ShouldStop, Unlock, NotifyOne]"
    using s'(2) by (simp add: appended_def)
  have quiet: "worker_at s \<noteq> Draining \<longrightarrow>
        addition_jobs s' = addition_jobs s \<and> index_manager s' = index_manager s \<and>
        drain_calls (appended s s') = []"
  proof
    assume "worker_at s \<noteq> Draining"
    from terminate_processing_closed [OF this, of C clock] s'(1)
    show "addition_jobs s' = addition_jobs s \<and> index_manager s' = index_manager s \<and>
        drain_calls (appended s s') = []"
      by (auto simp: appended_def drain_calls_append wake_trace_reads)
  qed
  have again: "terminate_processing C clock s' =
       Some (s'\<lparr>trace := trace s' @ [Lock, Access ShouldStop, Unlock, NotifyOne]\<rparr>)"
  proof -
    from st have "worker_at s' \<noteq> Draining" by simp
    from terminate_processing_closed [OF this, of C clock] s'(3,4) st
    show ?thesis by (cases s') simp
  qed
  have later: "\<forall>acts. \<exists>s''. run C clock acts s' = Some s'' \<and>
        worker_at s'' = Stopped \<and> should_stop s'' \<and>
        drain_calls (trace s'') = drain_calls (trace s') \<and>
        run C clock (filter is_call acts) s' = Some s''"
    using run_after_stop [OF st s'(4) s'(3), of C clock] by blast
  have mono: "\<forall>a t t'. should_stop t \<and> act C clock a t = Some t' \<longrightarrow> should_stop t'"
    using should_stop_stays [of _ C clock] by blast
  have inv: "\<forall>a t t'. (worker_joinable t \<or> worker_at t = Stopped) \<and> act C clock a t = Some t'
        \<longrightarrow> worker_joinable t' \<or> worker_at t' = Stopped"
    using joinable_or_stopped_stays [of _ C clock] by blast
  from s'(1,3,4) st four quiet again later mono inv show ?thesis by blast
qed

theorem terminate_processing_joins_worker_witness:
  "\<exists>s' s''. terminate_processing (spec_collaborators []) (\<lambda>k. 10) (constructed ''/idx'' [] 5 0)
        = Some s' \<and>
      worker_at s' = Stopped \<and>
      run (spec_collaborators []) (\<lambda>k. 10)
        [Call (Add_index_delay ''/f''), Worker 10 11, Worker 12 13] s' = Some s'' \<and>
      addition_jobs s'' = [''/f''] \<and> indexed (index_manager s'') = []"
proof -
  let ?C = "spec_collaborators [] :: (string, index_store, mount_snapshot) collaborators"
  let ?s = "constructed ''/idx'' [] 5 0"
  let ?acts = "[Call (Add_index_delay ''/f''), Worker 10 11, Worker 12 13] :: string action list"
  have j: "worker_joinable ?s \<or> worker_at ?s = Stopped"
    by (simp add: constructed_def)
  have w: "worker_at ?s \<noteq> Draining"
    by (simp add: constructed_def)
  from terminate_processing_joins_worker [OF j, of ?C "\<lambda>k. 10"] w
  obtain s' where s': "terminate_processing ?C (\<lambda>k. 10) ?s = Some s'" "worker_at s' = Stopped"
    "addition_jobs s' = addition_jobs ?s" "index_manager s' = index_manager ?s"
    and later: "\<forall>acts. \<exists>s''. run ?C (\<lambda>k. 10) acts s' = Some s'' \<and>
        worker_at s'' = Stopped \<and> should_stop s'' \<and>
        drain_calls (trace s'') = drain_calls (trace s') \<and>
        run ?C (\<lambda>k. 10) (filter is_call acts) s' = Some s''"
    by blast
  from later obtain s'' where s'': "run ?C (\<lambda>k. 10) ?acts s' = Some s''"
    "run ?C (\<lambda>k. 10) (filter is_call ?acts) s' = Some s''"
    by blast
  from s''(2) have "s'' = add_index_delay ''/f'' s'" by simp
  with s'(3,4) have "addition_jobs s'' = [''/f'']" "indexed (index_manager s'') = []"
    by (simp_all add: add_index_delay_def Let_def emit_def constructed_def)
  with s'(1,2) s''(1) show ?thesis by blast
qed

text \<open>
  C8, as stated, fails: with the stop flag set (and 101 jobs queued, more than the batch
  size 100) the waiting worker wakes, sees the flag and leaves its loop; it goes from
  waiting to stopped, \<open>eat_jobs\<close> is not run, and the queue keeps its 101 jobs.
  Likewise a job enqueued before \<open>terminate_processing\<close>, with the flush interval
  long past, is still in the queue when the worker has stopped: nothing was added to the
  index.
\<close>

theorem stop_request_skips_drain:
  "worker_step (spec_collaborators []) 10 11
     ((constructed ''/idx'' [] 5 0)\<lparr>addition_jobs := replicate 101 ''/f'', should_stop := True\<rparr>) =
   Some ((constructed ''/idx'' [] 5 0)
     \<lparr>addition_jobs := replicate 101 ''/f'', should_stop := True, worker_at := Stopped,
      trace := [Lock, Access AdditionJobs, Access ShouldStop, Unlock]\<rparr>) \<and>
   map_option (\<lambda>s'. (worker_at s', addition_jobs s', indexed (index_manager s'),
                     drain_calls (trace s')))
     (terminate_processing (spec_collaborators []) (\<lambda>k. 10)
        (add_index_delay ''/f'' (constructed ''/idx'' [] 5 0))) =
   Some (Stopped, [''/f''], [], [])"
proof -
  have "worker_at (add_index_delay ''/f'' (constructed ''/idx'' [] 5 0)) \<noteq> Draining"
    by (simp add: add_index_delay_def Let_def emit_def constructed_def)
  from terminate_processing_closed [OF this, of "spec_collaborators []" "\<lambda>k. 10"]
  show ?thesis
    by (simp add: worker_step_def wake_condition_def wake_trace_def add_index_delay_def
        Let_def emit_def constructed_def spec_collaborators_def store_deletion_jobs_ready_def)
qed

text \<open>
  C8, amended. From \<open>Waiting\<close>, whatever \<open>wait_for\<close> returns (the wake
  condition or the timeout of one second), the worker's next step does no drain itself
  and leads to \<open>Draining\<close>, where the step after it runs \<open>eat_jobs\<close> and
  returns to \<open>Waiting\<close>; unless \<open>should_stop_\<close> is set, in which case the
  step leads to \<open>Stopped\<close> with no drain (the queue, the index manager and the
  last flush time are as before) and the worker stays there.
\<close>

theorem worker_step_from_waiting:
  assumes "worker_at s = Waiting"
  shows "\<exists>s'. worker_step C now now' s = Some s' \<and>
     worker_at s' = (if should_stop s then Stopped else Draining) \<and>
     addition_jobs s' = addition_jobs s \<and> index_manager s' = index_manager s \<and>
     last_addition_time s' = last_addition_time s \<and> should_stop s' = should_stop s \<and>
     drain_calls (appended s s') = [] \<and>
     (if should_stop s then worker_step C now now' s' = Some s'
      else \<exists>t. eat_jobs C now now' s' = Some t \<and>
             worker_step C now now' s' = Some ((emit Unlock t)\<lparr>worker_at := Waiting\<rparr>))"
proof -
  let ?s' = "s\<lparr>worker_at := (if should_stop s then Stopped else Draining),
             trace := trace s @ Lock # wake_trace C s @
               (if woken C s then Access ShouldStop # (if should_stop s then [Unlock] else [])
                else [])\<rparr>"
  have step: "worker_step C now now' s = Some ?s'"
    using assms by (rule worker_step_waiting)
  have quiet: "drain_calls (appended s ?s') = []"
    by (simp add: appended_def drain_calls_append wake_trace_reads)
  have next_step: "if should_stop s then worker_step C now now' ?s' = Some ?s'
      else \<exists>t. eat_jobs C now now' ?s' = Some t \<and>
             worker_step C now now' ?s' = Some ((emit Unlock t)\<lparr>worker_at := Waiting\<rparr>)"
  proof (cases "should_stop s")
    case True
    then show ?thesis by (simp add: worker_step_stopped)
  next
    case False
    obtain t where "eat_jobs C now now' ?s' = Some t"
      using eat_jobs_keeps [of C now now' ?s'] by blast
    with False show ?thesis by (simp add: worker_step_def)
  qed
  from step quiet next_step show ?thesis by simp
qed

theorem worker_step_from_waiting_witness:
  "\<exists>s' s''. worker_step (spec_collaborators []) 10 11
        ((constructed ''/idx'' [] 5 0)\<lparr>addition_jobs := [''/f'']\<rparr>) = Some s' \<and>
      worker_at s' = Draining \<and> addition_jobs s' = [''/f''] \<and>
      worker_step (spec_collaborators []) 10 11 s' = Some s'' \<and>
      worker_at s'' = Waiting \<and> addition_jobs s'' = [] \<and>
      indexed (index_manager s'') = [''/f'']"
proof -
  let ?C = "spec_collaborators [] :: (string, index_store, mount_snapshot) collaborators"
  let ?s = "(constructed ''/idx'' [] 5 0)\<lparr>addition_jobs := [''/f'']\<rparr>"
  have w: "worker_at ?s = Waiting" by (simp add: constructed_def)
  have n: "\<not> should_stop ?s" by (simp add: constructed_def)
  from worker_step_from_waiting [OF w, of ?C 10 11] n
  obtain s' t where s': "worker_step ?C 10 11 ?s = Some s'" "worker_at s' = Draining"
    "addition_jobs s' = addition_jobs ?s" "index_manager s' = index_manager ?s"
    "last_addition_time s' = last_addition_time ?s"
    "eat_jobs ?C 10 11 s' = Some t"
    "worker_step ?C 10 11 s' = Some ((emit Unlock t)\<lparr>worker_at := Waiting\<rparr>)"
    by auto
  have b: "batch_size s' = 100" "batch_interval s' = 5"
    using s'(1) w by (auto simp: worker_step_waiting constructed_def)
  have c: "flush_due 10 s'" "flush_count 10 s' = 1"
    using s'(3,5) b by (simp_all add: flush_due_def flush_count_def constructed_def)
  from s'(6) c s'(3,4) have t: "addition_jobs t = []" "indexed (index_manager t) = [''/f'']"
    unfolding eat_jobs_closed
    by (auto simp: flushed_store_def spec_collaborators_def store_add_index_def
        store_deletion_jobs_ready_def constructed_def)
  let ?s'' = "(emit Unlock t)\<lparr>worker_at := Waiting\<rparr>"
  from t have "worker_at ?s'' = Waiting" "addition_jobs ?s'' = []"
    "indexed (index_manager ?s'') = [''/f'']"
    by (simp_all add: emit_def)
  with s'(1,2,3,7) show ?thesis by (auto simp: constructed_def)
qed

text \<open>
  C9, as stated, fails: \<open>insert_pending_records\<close> appends to the pending buffer,
  \<open>record_size\<close> reads its size, and \<open>run_scheduled_task\<close> tests it for
  emptiness, reads its size and pops its front, all without holding \<open>mtx_\<close>; so
  does \<open>refresh_mount_status\<close> call the mount manager.
\<close>

theorem pending_buffer_is_unguarded:
  "unguarded False (appended (constructed ''/idx'' [] 5 0)
      (insert_pending_records [''/f''] (constructed ''/idx'' [] 5 0))) = [Access Records] \<and>
   unguarded False (appended (constructed ''/idx'' [] 5 0)
      (snd (record_size (constructed ''/idx'' [] 5 0)))) = [Access Records] \<and>
   map_option (\<lambda>s'. unguarded False (appended (constructed ''/idx'' [] 5 0) s'))
      (run_scheduled_task (spec_collaborators [])
         ((constructed ''/idx'' [] 5 0)\<lparr>records := [''/f'']\<rparr>)) =
     Some [Access Records, Access Records, Access Records] \<and>
   unguarded False (appended (constructed ''/idx'' [] 5 0)
      (refresh_mount_status (spec_collaborators []) (constructed ''/idx'' [] 5 0))) =
     [Mount Mm_update]"
  by (simp add: insert_pending_records_def record_size_def refresh_mount_status_def
      run_scheduled_task_closed forwarded_def appended_def emit_def constructed_def)

text \<open>
  C9, amended. \<open>mtx_\<close> is held during every access to the addition queue and
  the stop flag, and during every call of the index manager but
  \<open>index_directory\<close>: in \<open>add_index_delay\<close>,
  \<open>remove_index_delay\<close>, \<open>set_index_change_filter\<close>, \<open>search\<close>,
  \<open>removePath\<close>, \<open>hasLFT\<close>, \<open>addPath\<close>,
  \<open>terminate_processing\<close> and a round of the worker nothing happens outside
  the lock. The pending buffer is not guarded: \<open>insert_pending_records\<close>,
  \<open>record_size\<close> and, in \<open>run_scheduled_task\<close>, the emptiness test, the
  size and each pop happen without the lock (only \<open>front()\<close> and the delayed add
  are under it). Neither are the calls of the mount manager, nor
  \<open>index_directory\<close>.
\<close>

theorem lock_discipline:
  "unguarded False (appended s (add_index_delay r s)) = [] \<and>
   unguarded False (appended s (remove_index_delay C t s)) = [] \<and>
   unguarded False (appended s (set_index_change_filter C f s)) = [] \<and>
   unguarded False (appended s (snd (search C path keywords offset max_count s))) = [] \<and>
   unguarded False (appended s (snd (removePath C path s))) = [] \<and>
   unguarded False (appended s (snd (hasLFT C path s))) = [] \<and>
   unguarded False (appended s (snd (addPath C path s))) = [] \<and>
   (worker_at s \<noteq> Draining \<longrightarrow>
      (\<exists>s'. terminate_processing C clock s = Some s' \<and> unguarded False (appended s s') = [])) \<and>
   (worker_at s = Waiting \<longrightarrow>
      (\<exists>s' s''. worker_step C now now' s = Some s' \<and> worker_step C now now' s' = Some s'' \<and>
         unguarded False (appended s s'') = [])) \<and>
   unguarded False (appended s (insert_pending_records rs s)) = [Access Records] \<and>
   unguarded False (appended s (snd (record_size s))) = [Access Records] \<and>
   (\<exists>s'. run_scheduled_task C s = Some s' \<and>
      unguarded False (appended s s') =
        replicate (if records s = [] then 1 else 2 + min 500 (length (records s)))
          (Access Records)) \<and>
   unguarded False (appended s (refresh_mount_status C s)) = [Mount Mm_update] \<and>
   unguarded False (appended s (snd (device_available C d s))) = [Mount (Mm_contains_device d)] \<and>
   unguarded False (appended s (snd (fetch_mount_point_for_device C d s))) =
     [Mount (Mm_get_mount_point d)] \<and>
   unguarded False (appended s (snd (ignored_event C path ignored s))) =
     (if ends_with path ''.longname'' \<or> ignored then []
      else [Mount (Mm_path_match_type path ''fuse.dlnfs'')]) \<and>
   unguarded False (appended s (snd (get_index_directory C s))) = [Store Im_index_directory]"
proof -
  have calls: "unguarded False (appended s (add_index_delay r s)) = []"
    "unguarded False (appended s (remove_index_delay C t s)) = []"
    "unguarded False (appended s (set_index_change_filter C f s)) = []"
    "unguarded False (appended s (snd (search C path keywords offset max_count s))) = []"
    "unguarded False (appended s (snd (removePath C path s))) = []"
    "unguarded False (appended s (snd (hasLFT C path s))) = []"
    "unguarded False (appended s (snd (addPath C path s))) = []"
    by (simp_all add: add_index_delay_def remove_index_delay_def set_index_change_filter_def
        search_def removePath_def hasLFT_def addPath_def Let_def emit_def appended_def
        split: option.splits)
  have joined: "worker_at s \<noteq> Draining \<longrightarrow>
      (\<exists>s'. terminate_processing C clock s = Some s' \<and> unguarded False (appended s s') = [])"
  proof
    assume "worker_at s \<noteq> Draining"
    from terminate_processing_closed [OF this, of C clock]
    show "\<exists>s'. terminate_processing C clock s = Some s' \<and> unguarded False (appended s s') = []"
      by (simp add: appended_def unguarded_append holds_append wake_trace_reads)
  qed
  have work: "worker_at s = Waiting \<longrightarrow>
      (\<exists>s' s''. worker_step C now now' s = Some s' \<and> worker_step C now now' s' = Some s'' \<and>
         unguarded False (appended s s'') = [])"
    using worker_round_guarded [of s C now now'] by blast
  have free: "unguarded False (appended s (insert_pending_records rs s)) = [Access Records]"
    "unguarded False (appended s (snd (record_size s))) = [Access Records]"
    "unguarded False (appended s (refresh_mount_status C s)) = [Mount Mm_update]"
    "unguarded False (appended s (snd (device_available C d s))) = [Mount (Mm_contains_device d)]"
    "unguarded False (appended s (snd (fetch_mount_point_for_device C d s))) =
       [Mount (Mm_get_mount_point d)]"
    "unguarded False (appended s (snd (ignored_event C path ignored s))) =
       (if ends_with path ''.longname'' \<or> ignored then []
        else [Mount (Mm_path_match_type path ''fuse.dlnfs'')])"
    "unguarded False (appended s (snd (get_index_directory C s))) = [Store Im_index_directory]"
    by (simp_all add: insert_pending_records_def record_size_def refresh_mount_status_def
        device_available_def fetch_mount_point_for_device_def ignored_event_def
        get_index_directory_def Let_def emit_def appended_def)
  from calls joined work free run_scheduled_task_unguarded [of C s] show ?thesis
    by blast
qed

theorem lock_discipline_witness:
  "unguarded False (appended (constructed ''/idx'' [] 5 0)
      (add_index_delay ''/f'' (constructed ''/idx'' [] 5 0))) = [] \<and>
   appended (constructed ''/idx'' [] 5 0)
      (add_index_delay ''/f'' (constructed ''/idx'' [] 5 0)) =
     [Lock, Access AdditionJobs, Access AdditionJobs, Unlock] \<and>
   (\<exists>s'. terminate_processing (spec_collaborators []) (\<lambda>k. 10) (constructed ''/idx'' [] 5 0)
        = Some s' \<and>
      unguarded False (appended (constructed ''/idx'' [] 5 0) s') = []) \<and>
   (\<exists>s' s''. worker_step (spec_collaborators []) 10 11 (constructed ''/idx'' [] 5 0) = Some s' \<and>
      worker_step (spec_collaborators []) 10 11 s' = Some s'' \<and>
      unguarded False (appended (constructed ''/idx'' [] 5 0) s'') = [])"
proof -
  let ?C = "spec_collaborators [] :: (string, index_store, mount_snapshot) collaborators"
  let ?s = "constructed ''/idx'' [] 5 0"
  have w: "worker_at ?s = Waiting" "worker_at ?s \<noteq> Draining"
    by (simp_all add: constructed_def)
  have a: "appended ?s (add_index_delay ''/f'' ?s) =
      [Lock, Access AdditionJobs, Access AdditionJobs, Unlock]"
    by (simp add: add_index_delay_def Let_def emit_def appended_def constructed_def)
  from lock_discipline [of ?s "''/f''" ?C "''t''" "\<lambda>p. True" "''p''" "''k''" 0 0 "\<lambda>k. 10" 10 11
      "[]" 0 False] w a
  show ?thesis by simp
qed

text \<open>
  C10. For every \<open>offset\<close> that is not negative, \<open>search\<close> returns what
  the index manager's \<open>search\<close> answers with the fuzzy flag true, and calls it
  once, with that flag. What the index manager would answer with the flag false has no
  influence on any member function or on any step of the worker: with those answers
  replaced by anything else, every member function and every worker step returns the
  same value and leaves the same handler. No member function, and no step of the worker,
  calls \<open>search\<close> with the flag false.
\<close>

theorem search_is_always_fuzzy:
  "fst (search C path keywords offset max_count s) =
     (if sint offset < 0 then []
      else im_search C path keywords offset max_count True (index_manager s)) \<and>
   store_calls (appended s (snd (search C path keywords offset max_count s))) =
     (if sint offset < 0 then [] else [Im_search path keywords offset max_count True]) \<and>
   search_flags (appended s (snd (search C path keywords offset max_count s))) =
     (if sint offset < 0 then [] else [True]) \<and>
   dispatch (with_other_search other C) clock req s = dispatch C clock req s \<and>
   worker_step (with_other_search other C) now now' s = worker_step C now now' s \<and>
   (\<exists>r s'. dispatch C clock req s = Some (r, s') \<and>
      False \<notin> set (search_flags (appended s s'))) \<and>
   (\<exists>s'. worker_step C now now' s = Some s' \<and> search_flags (appended s s') = [])"
  using dispatch_search_flags [of C clock req s] worker_step_search_flags [of C now now' s]
  by (simp add: dispatch_other_search worker_step_other_search search_def Let_def emit_def
      appended_def)

theorem search_is_always_fuzzy_witness:
  "fst (search (spec_collaborators []) ''/home'' ''report'' 0 10
      ((constructed ''/idx'' [] 5 0)\<lparr>index_manager :=
          (index_manager (constructed ''/idx'' [] 5 0))\<lparr>indexed := [''/home/report'']\<rparr>\<rparr>)) =
     [''/home/report''] \<and>
   map_option fst
     (dispatch (with_other_search (\<lambda>path keywords offset max_count st. [''non-fuzzy''])
                 (spec_collaborators []))
        (\<lambda>k. 10) (Search ''/home'' ''report'' 0 10)
        ((constructed ''/idx'' [] 5 0)\<lparr>index_manager :=
          (index_manager (constructed ''/idx'' [] 5 0))\<lparr>indexed := [''/home/report'']\<rparr>\<rparr>)) =
     Some (Strings [''/home/report'']) \<and>
   search_flags (appended (constructed ''/idx'' [] 5 0)
      (snd (search (spec_collaborators []) ''/home'' ''report'' 0 10
              (constructed ''/idx'' [] 5 0)))) = [True]"
proof -
  let ?C = "spec_collaborators [] :: (string, index_store, mount_snapshot) collaborators"
  let ?s = "(constructed ''/idx'' [] 5 0)\<lparr>index_manager :=
          (index_manager (constructed ''/idx'' [] 5 0))\<lparr>indexed := [''/home/report'']\<rparr>\<rparr>"
  let ?g = "\<lambda>(path :: string) (keywords :: string) (offset :: 32 word) (max_count :: 32 word)
      (st :: index_store). [''non-fuzzy'']"
  have z: "\<not> sint (0 :: 32 word) < 0" by simp
  have q: "im_search ?C ''/home'' ''report'' 0 10 True (index_manager ?s) = [''/home/report'']"
    by (simp add: spec_collaborators_def store_search_def constructed_def)
  have d: "dispatch ?C (\<lambda>k. 10) (Search ''/home'' ''report'' 0 10) ?s =
      Some (Strings (fst (search ?C ''/home'' ''report'' 0 10 ?s)),
            snd (search ?C ''/home'' ''report'' 0 10 ?s))"
    by (simp add: map_prod_def split_beta)
  from search_is_always_fuzzy [of ?C "''/home''" "''report''" 0 10 ?s ?g "\<lambda>k. 10"
      "Search ''/home'' ''report'' 0 10" 10 11]
    search_is_always_fuzzy [of ?C "''/home''" "''report''" 0 10 "constructed ''/idx'' [] 5 0" ?g
      "\<lambda>k. 10" "Search ''/home'' ''report'' 0 10" 10 11] z q d
  show ?thesis by simp
qed

end
